theory Spec2Isabelle
  imports Complex_Main "HOL-Library.Sublist"
begin

section \<open>Dashboard: statistics, increments and the reconciliation timer\<close>

text \<open>
  The dashboard component keeps the last statistics snapshot, two local increment counters,
  the message handed to the bubble animation, and one shared handle
  \<open>pendingStatsRefreshRef\<close> for the debounced reconciliation fetch.  Time is counted in
  milliseconds; \<open>setTimeout(f, d)\<close> called at time \<open>now\<close> is recorded as the deadline
  \<open>now + d\<close>.  The armed reconciliation timers are kept with their handles: a timer
  fires unless \<open>clearTimeout\<close> removed it, whether or not the ref still points to it.  A field of a JSON payload that may be absent is an \<open>option\<close>.
\<close>

record stats =
  total_attendees :: "int option"
  event_checkins :: "int option"
  session_checkins :: "int option"

record bubble_message =
  bm_text :: string
  bm_id :: nat
  bm_timestamp :: nat
  bm_event_type :: string

record checkin_data =
  cd_message :: "string option"
  cd_event_type :: "string option"
  cd_checkin_type :: "string option"
  cd_session_id :: "string option"

datatype jsval = JUndefined | JNull | JNum int | JStr string

record poke_data =
  pk_event_id :: jsval
  pk_resource_ids :: "string list option"

record settings =
  soundEnabled :: bool
  soundMode :: string
  currentEventId :: jsval
  currentApiKey :: string

record dashboard =
  d_stats :: stats
  sessionIncrement :: nat
  eventIncrement :: nat
  currentBubbleMessage :: "bubble_message option"
  messageCounter :: nat
  recentCheckinSessionId :: "string option"
  recentClearTimers :: "nat list"
  refreshTimers :: "(nat \<times> nat) list"
  nextHandle :: nat
  pendingStatsRefresh :: "nat option"
  d_error :: string
  retryTimers :: "nat list"
  fetchLog :: "nat list"
  lookupLog :: "string list"
  noteRequests :: nat

definition initial_stats :: stats where
  "initial_stats = \<lparr>total_attendees = Some 0, event_checkins = Some 0, session_checkins = Some 0\<rparr>"

definition initial_dashboard :: dashboard where
  "initial_dashboard =
     \<lparr>d_stats = initial_stats, sessionIncrement = 0, eventIncrement = 0,
      currentBubbleMessage = None, messageCounter = 0, recentCheckinSessionId = None,
      recentClearTimers = [], refreshTimers = [], nextHandle = 0,
      pendingStatsRefresh = None, d_error = [], retryTimers = [],
      fetchLog = [], lookupLog = [], noteRequests = 0\<rparr>"

text \<open>JavaScript truthiness of a possibly absent string, and \<open>x || fallback\<close>.\<close>

definition truthy_str :: "string option \<Rightarrow> bool" where
  "truthy_str v = (case v of None \<Rightarrow> False | Some s \<Rightarrow> s \<noteq> [])"

definition or_str :: "string option \<Rightarrow> string \<Rightarrow> string" where
  "or_str v fallback = (case v of None \<Rightarrow> fallback | Some s \<Rightarrow> if s = [] then fallback else s)"

definition or_zero :: "int option \<Rightarrow> int" where
  "or_zero v = (case v of None \<Rightarrow> 0 | Some n \<Rightarrow> n)"

text \<open>\<open>String(x)\<close> for the values an event id can take.\<close>

fun string_of_nat :: "nat \<Rightarrow> string" where
  "string_of_nat n =
     (if n < 10 then [char_of (48 + n)]
      else string_of_nat (n div 10) @ [char_of (48 + n mod 10)])"

definition String_of :: "jsval \<Rightarrow> string" where
  "String_of v =
     (case v of
        JUndefined \<Rightarrow> ''undefined''
      | JNull \<Rightarrow> ''null''
      | JNum i \<Rightarrow> (if i < 0 then CHR ''-'' # string_of_nat (nat (- i)) else string_of_nat (nat i))
      | JStr s \<Rightarrow> s)"

subsection \<open>fetchStats and StatsDisplay\<close>

text \<open>
  \<open>fetchStats\<close> awaits the HTTP response; the model applies its outcome: \<open>Inr data\<close> for a
  parsed snapshot, \<open>Inl msg\<close> for a thrown error.  On an error that is not an abort the
  error banner is set and a retry is scheduled 5 seconds later.
\<close>

definition fetchStats :: "bool \<Rightarrow> nat \<Rightarrow> string + stats \<Rightarrow> dashboard \<Rightarrow> dashboard" where
  "fetchStats aborted now resp s =
     (case resp of
        Inr data \<Rightarrow> s\<lparr>d_stats := data, eventIncrement := 0, sessionIncrement := 0, d_error := []\<rparr>
      | Inl msg \<Rightarrow>
          if aborted then s
          else s\<lparr>d_error := ''Error loading stats: '' @ msg,
                 retryTimers := retryTimers s @ [now + 5000]\<rparr>)"

text \<open>The three numbers \<open>StatsDisplay\<close> renders from its props.\<close>

definition shown_total :: "dashboard \<Rightarrow> int" where
  "shown_total s = or_zero (total_attendees (d_stats s))"

definition shown_event :: "dashboard \<Rightarrow> int" where
  "shown_event s = or_zero (event_checkins (d_stats s)) + int (eventIncrement s)"

definition shown_session :: "dashboard \<Rightarrow> int" where
  "shown_session s = or_zero (session_checkins (d_stats s)) + int (sessionIncrement s)"

subsection \<open>The socket handlers\<close>

definition REFRESH_DELAY_EVENT :: nat where "REFRESH_DELAY_EVENT = 10000"
definition REFRESH_DELAY_POKE :: nat where "REFRESH_DELAY_POKE = 3000"

text \<open>
  The callback of the debounce timer runs \<open>fetchStats()\<close> and \<open>fetchActiveSessions()\<close>
  and sets the ref to null.  \<open>fire_refresh t\<close> runs it for every armed timer whose
  deadline has been reached at time \<open>t\<close>; the log records the deadline at which each
  fetch was due.
\<close>

definition is_due :: "nat \<Rightarrow> nat \<times> nat \<Rightarrow> bool" where
  "is_due t tm = (snd tm \<le> t)"

definition fire_refresh :: "nat \<Rightarrow> dashboard \<Rightarrow> dashboard" where
  "fire_refresh t s =
     (if filter (is_due t) (refreshTimers s) = [] then s
      else s\<lparr>fetchLog := fetchLog s @ map snd (filter (is_due t) (refreshTimers s)),
             refreshTimers := filter (\<lambda>tm. \<not> is_due t tm) (refreshTimers s),
             pendingStatsRefresh := None\<rparr>)"

definition clearTimeout :: "nat \<Rightarrow> dashboard \<Rightarrow> dashboard" where
  "clearTimeout h s = s\<lparr>refreshTimers := filter (\<lambda>tm. fst tm \<noteq> h) (refreshTimers s)\<rparr>"

definition setTimeout :: "nat \<Rightarrow> dashboard \<Rightarrow> dashboard" where
  "setTimeout deadline s =
     s\<lparr>refreshTimers := refreshTimers s @ [(nextHandle s, deadline)],
       pendingStatsRefresh := Some (nextHandle s),
       nextHandle := nextHandle s + 1\<rparr>"

text \<open>
  \<open>if (ref.current) clearTimeout(ref.current); ref.current = setTimeout(..., delay)\<close>
\<close>

definition rearm_refresh :: "nat \<Rightarrow> nat \<Rightarrow> dashboard \<Rightarrow> dashboard" where
  "rearm_refresh now delay s =
     setTimeout (now + delay)
       (case pendingStatsRefresh s of None \<Rightarrow> s | Some h \<Rightarrow> clearTimeout h s)"

definition show_message :: "nat \<Rightarrow> string \<Rightarrow> string option \<Rightarrow> dashboard \<Rightarrow> dashboard" where
  "show_message now txt ev s =
     s\<lparr>messageCounter := messageCounter s + 1,
       currentBubbleMessage :=
         Some \<lparr>bm_text = txt, bm_id = messageCounter s + 1, bm_timestamp = now,
               bm_event_type = or_str ev ''checkin''\<rparr>\<rparr>"

definition count_checkin :: "nat \<Rightarrow> string option \<Rightarrow> string option \<Rightarrow> dashboard \<Rightarrow> dashboard" where
  "count_checkin now ctype sid s =
     (if ctype = Some ''event'' then s\<lparr>eventIncrement := eventIncrement s + 1\<rparr>
      else if ctype = Some ''session'' then
        (let s1 = s\<lparr>sessionIncrement := sessionIncrement s + 1\<rparr>
         in if truthy_str sid
            then s1\<lparr>recentCheckinSessionId := sid,
                    recentClearTimers := recentClearTimers s1 @ [now + 2000]\<rparr>
            else s1)
      else s)"

definition request_note :: "settings \<Rightarrow> dashboard \<Rightarrow> dashboard" where
  "request_note cfg s =
     (if soundEnabled cfg \<and> soundMode cfg = ''Symphony''
      then s\<lparr>noteRequests := noteRequests s + 1\<rparr> else s)"

definition on_checkin_event :: "settings \<Rightarrow> nat \<Rightarrow> checkin_data \<Rightarrow> dashboard \<Rightarrow> dashboard" where
  "on_checkin_event cfg now data s =
     (let s1 = (if truthy_str (cd_message data)
                then show_message now (the (cd_message data)) (cd_event_type data) s else s);
          s2 = (if cd_event_type data = Some ''checkin''
                then count_checkin now (cd_checkin_type data) (cd_session_id data) s1 else s1);
          s3 = request_note cfg s2
      in rearm_refresh now REFRESH_DELAY_EVENT s3)"

text \<open>
  \<open>checkin_poke\<close>: the guard, the enrichment lookup for the first resource id, and the
  re-armed refresh.  The \<open>.then\<close> callback of the lookup is \<open>on_poke_message\<close>.
\<close>

definition on_checkin_poke :: "settings \<Rightarrow> nat \<Rightarrow> poke_data option \<Rightarrow> dashboard \<Rightarrow> dashboard" where
  "on_checkin_poke cfg now data s =
     (case data of
        None \<Rightarrow> s
      | Some d \<Rightarrow>
          if String_of (pk_event_id d) \<noteq> String_of (currentEventId cfg) then s
          else
            (let resourceIds = (case pk_resource_ids d of None \<Rightarrow> [] | Some ids \<Rightarrow> ids);
                 s1 = (case resourceIds of [] \<Rightarrow> s
                       | rid # _ \<Rightarrow> s\<lparr>lookupLog := lookupLog s @ [rid]\<rparr>)
             in rearm_refresh now REFRESH_DELAY_POKE s1))"

definition on_poke_message :: "settings \<Rightarrow> nat \<Rightarrow> checkin_data option \<Rightarrow> dashboard \<Rightarrow> dashboard" where
  "on_poke_message cfg now msg s =
     (case msg of
        None \<Rightarrow> s
      | Some m \<Rightarrow>
          if truthy_str (cd_message m)
          then request_note cfg
                 (count_checkin now (cd_checkin_type m) (cd_session_id m)
                    (show_message now (the (cd_message m)) (cd_event_type m) s))
          else s)"

text \<open>
  A timeline of check-in events with ideal timers: before the event at time \<open>t\<close> is
  handled, a refresh whose deadline has been reached runs.
\<close>

definition deliver_checkin :: "settings \<Rightarrow> dashboard \<Rightarrow> nat \<times> checkin_data \<Rightarrow> dashboard" where
  "deliver_checkin cfg s ev = on_checkin_event cfg (fst ev) (snd ev) (fire_refresh (fst ev) s)"

definition run_checkins :: "settings \<Rightarrow> (nat \<times> checkin_data) list \<Rightarrow> dashboard \<Rightarrow> dashboard" where
  "run_checkins cfg evs s = foldl (deliver_checkin cfg) s evs"

text \<open>Successive events of a burst are closer together than the debounce window.\<close>

fun burst :: "nat \<Rightarrow> nat list \<Rightarrow> bool" where
  "burst w [] = True"
| "burst w [t] = True"
| "burst w (t # u # ts) = (t \<le> u \<and> u < t + w \<and> burst w (u # ts))"

text \<open>
  Between events of a burst: the single armed timer is the one the ref points to (or none
  is armed and the ref is null).
\<close>

definition one_timer :: "dashboard \<Rightarrow> bool" where
  "one_timer s =
     (case pendingStatsRefresh s of
        None \<Rightarrow> refreshTimers s = []
      | Some h \<Rightarrow> map fst (refreshTimers s) = [h])"

section \<open>The ABC tune parser\<close>

subsection \<open>JavaScript numbers\<close>

text \<open>
  A number is a rational, an infinity or NaN.  Rounding to a double is left out: every
  property below is decided by the special values and by the clamping constants.  Digit
  strings are read as exact naturals.  Negative zero does not occur, since every operand
  comes from a digit string.
\<close>

datatype jsnum = Fin rat | PInf | NInf | NaN

definition js_falsy :: "jsnum \<Rightarrow> bool" where
  "js_falsy x = (x = Fin 0 \<or> x = NaN)"

definition js_or :: "jsnum \<Rightarrow> jsnum \<Rightarrow> jsnum" where
  "js_or x y = (if js_falsy x then y else x)"

fun js_div :: "jsnum \<Rightarrow> jsnum \<Rightarrow> jsnum" where
  "js_div NaN _ = NaN"
| "js_div _ NaN = NaN"
| "js_div (Fin a) (Fin b) =
     (if b = 0 then (if a = 0 then NaN else if 0 < a then PInf else NInf) else Fin (a / b))"
| "js_div (Fin a) _ = Fin 0"
| "js_div PInf (Fin b) = (if b < 0 then NInf else PInf)"
| "js_div NInf (Fin b) = (if b < 0 then PInf else NInf)"
| "js_div _ _ = NaN"

fun js_mul :: "jsnum \<Rightarrow> jsnum \<Rightarrow> jsnum" where
  "js_mul NaN _ = NaN"
| "js_mul _ NaN = NaN"
| "js_mul (Fin a) (Fin b) = Fin (a * b)"
| "js_mul (Fin a) PInf = (if a = 0 then NaN else if 0 < a then PInf else NInf)"
| "js_mul (Fin a) NInf = (if a = 0 then NaN else if 0 < a then NInf else PInf)"
| "js_mul PInf (Fin b) = (if b = 0 then NaN else if 0 < b then PInf else NInf)"
| "js_mul NInf (Fin b) = (if b = 0 then NaN else if 0 < b then NInf else PInf)"
| "js_mul PInf PInf = PInf"
| "js_mul NInf NInf = PInf"
| "js_mul _ _ = NInf"

text \<open>\<open>Math.max\<close> and \<open>Math.min\<close> return NaN as soon as one argument is NaN.\<close>

fun Math_max :: "jsnum \<Rightarrow> jsnum \<Rightarrow> jsnum" where
  "Math_max NaN _ = NaN"
| "Math_max _ NaN = NaN"
| "Math_max PInf _ = PInf"
| "Math_max _ PInf = PInf"
| "Math_max NInf y = y"
| "Math_max x NInf = x"
| "Math_max (Fin a) (Fin b) = Fin (max a b)"

fun Math_min :: "jsnum \<Rightarrow> jsnum \<Rightarrow> jsnum" where
  "Math_min NaN _ = NaN"
| "Math_min _ NaN = NaN"
| "Math_min NInf _ = NInf"
| "Math_min _ NInf = NInf"
| "Math_min PInf y = y"
| "Math_min x PInf = x"
| "Math_min (Fin a) (Fin b) = Fin (min a b)"

subsection \<open>Strings and regular expressions\<close>

text \<open>
  A string is a list of characters with codes below 256.  A regular expression is a
  function from the input to the list of its matches at the start of the input, in the
  order in which a backtracking matcher tries them: each match is the captured value and
  the rest of the input.  The first element is the match JavaScript reports.
\<close>

type_synonym 'a rx = "string \<Rightarrow> ('a \<times> string) list"

definition is_digit :: "char \<Rightarrow> bool" where
  "is_digit c = (c \<in> set ''0123456789'')"

definition is_space :: "char \<Rightarrow> bool" where
  "is_space c = (c \<in> set [CHR 0x09, CHR 0x0A, CHR 0x0B, CHR 0x0C, CHR 0x0D, CHR 0x20, CHR 0xA0])"

definition is_upper :: "char \<Rightarrow> bool" where
  "is_upper c = (c \<in> set ''ABCDEFGHIJKLMNOPQRSTUVWXYZ'')"

definition parseInt :: "string \<Rightarrow> nat" where
  "parseInt ds = foldl (\<lambda>n c. 10 * n + (of_char c - 48)) 0 ds"

definition starts_with :: "string \<Rightarrow> string \<Rightarrow> bool" where
  "starts_with p s = (take (length p) s = p)"

definition trim :: "string \<Rightarrow> string" where
  "trim s = rev (dropWhile is_space (rev (dropWhile is_space s)))"

text \<open>\<open>split(/\r?\n/)\<close>: a line ends at a line feed; one carriage return before it is dropped.\<close>

definition strip_cr :: "string \<Rightarrow> string" where
  "strip_cr cur = (if cur \<noteq> [] \<and> last cur = CHR 0x0D then butlast cur else cur)"

fun split_lines_from :: "string \<Rightarrow> string \<Rightarrow> string list" where
  "split_lines_from cur [] = [cur]"
| "split_lines_from cur (c # cs) =
     (if c = CHR 0x0A then strip_cr cur # split_lines_from [] cs
      else split_lines_from (cur @ [c]) cs)"

definition split_lines :: "string \<Rightarrow> string list" where
  "split_lines s = split_lines_from [] s"

fun join_with :: "string \<Rightarrow> string list \<Rightarrow> string" where
  "join_with sep [] = []"
| "join_with sep [x] = x"
| "join_with sep (x # y # ys) = x @ sep @ join_with sep (y # ys)"

text \<open>
  Greedy repetition of a character class, between \<open>lo\<close> and \<open>hi\<close> times: the longest
  run first, then each shorter one.
\<close>

definition rx_rep :: "nat \<Rightarrow> nat option \<Rightarrow> (char \<Rightarrow> bool) \<Rightarrow> string rx" where
  "rx_rep lo hi P s =
     (let run = length (takeWhile P s);
          top = (case hi of None \<Rightarrow> run | Some h \<Rightarrow> min h run)
      in map (\<lambda>n. (take n s, drop n s)) (rev [lo ..< Suc top]))"

definition rx_lit :: "char \<Rightarrow> unit rx" where
  "rx_lit c s = (case s of [] \<Rightarrow> [] | x # r \<Rightarrow> if x = c then [((), r)] else [])"

definition rx_digits :: "string rx" where
  "rx_digits = rx_rep 1 None is_digit"

definition rx_spaces :: "string rx" where
  "rx_spaces = rx_rep 0 None is_space"

text \<open>An optional group: the group's matches first, then the empty match.\<close>

definition rx_opt :: "'a rx \<Rightarrow> 'a option rx" where
  "rx_opt r s = map (\<lambda>(v, rest). (Some v, rest)) (r s) @ [(None, s)]"

text \<open>
  An unanchored \<open>match\<close>/\<open>exec\<close>: the first start position that has a match, with the
  input left after it.
\<close>

fun rx_search :: "'a rx \<Rightarrow> string \<Rightarrow> ('a \<times> string) option" where
  "rx_search r [] = (case r [] of [] \<Rightarrow> None | m # _ \<Rightarrow> Some m)"
| "rx_search r (c # cs) = (case r (c # cs) of [] \<Rightarrow> rx_search r cs | m # _ \<Rightarrow> Some m)"

text \<open>A pattern between \<open>^\<close> and \<open>$\<close>: the first match that uses the whole input.\<close>

definition rx_full :: "'a rx \<Rightarrow> string \<Rightarrow> 'a option" where
  "rx_full r s = (case filter (\<lambda>m. snd m = []) (r s) of [] \<Rightarrow> None | m # _ \<Rightarrow> Some (fst m))"

subsection \<open>Headers\<close>

text \<open>\<open>/(\d+)\/(\d+)/\<close>\<close>

definition rx_fraction :: "(string \<times> string) rx" where
  "rx_fraction s =
     concat (map (\<lambda>(a, r1).
       concat (map (\<lambda>(u, r2).
         map (\<lambda>(b, r3). ((a, b), r3)) (rx_digits r2)) (rx_lit CHR ''/'' r1))) (rx_digits s))"

text \<open>\<open>/(\d+)\/(\d+)\s*=\s*(\d+)/\<close>\<close>

definition rx_tempo :: "((string \<times> string) \<times> string) rx" where
  "rx_tempo s =
     concat (map (\<lambda>(ab, r1).
       concat (map (\<lambda>(w1, r2).
         concat (map (\<lambda>(u, r3).
           concat (map (\<lambda>(w2, r4).
             map (\<lambda>(c, r5). ((ab, c), r5)) (rx_digits r4)) (rx_spaces r3)))
           (rx_lit CHR ''='' r2))) (rx_spaces r1))) (rx_fraction s))"

record header =
  defaultLen :: "nat \<times> nat"
  qNote :: "nat \<times> nat"
  qBpm :: nat

definition default_header :: header where
  "default_header = \<lparr>defaultLen = (1, 8), qNote = (1, 4), qBpm = 120\<rparr>"

definition read_L :: "string \<Rightarrow> header \<Rightarrow> header" where
  "read_L line h =
     (if starts_with ''L:'' line then
        (case rx_search rx_fraction (trim (drop 2 line)) of
           Some ((a, b), _) \<Rightarrow> h\<lparr>defaultLen := (parseInt a, parseInt b)\<rparr>
         | None \<Rightarrow> h)
      else h)"

definition read_Q :: "string \<Rightarrow> header \<Rightarrow> header" where
  "read_Q line h =
     (if starts_with ''Q:'' line then
        (let qraw = trim (drop 2 line) in
         case rx_search rx_tempo qraw of
           Some (((a, b), c), _) \<Rightarrow> h\<lparr>qNote := (parseInt a, parseInt b), qBpm := parseInt c\<rparr>
         | None \<Rightarrow>
             (case rx_search rx_digits qraw of
                Some (c, _) \<Rightarrow> h\<lparr>qNote := (1, 4), qBpm := parseInt c\<rparr>
              | None \<Rightarrow> h))
      else h)"

definition read_headers :: "string list \<Rightarrow> header" where
  "read_headers lines = foldl (\<lambda>h line. read_Q line (read_L line h)) default_header lines"

text \<open>\<open>/^[A-Z]:/\<close> on the trimmed line decides which lines are left out of the tune body.\<close>

definition is_header_line :: "string \<Rightarrow> bool" where
  "is_header_line l =
     (case trim l of c # d # _ \<Rightarrow> is_upper c \<and> d = CHR '':'' | _ \<Rightarrow> False)"

definition tune_content :: "string list \<Rightarrow> string" where
  "tune_content lines = join_with '' '' (filter (\<lambda>l. \<not> is_header_line l) lines)"

subsection \<open>Note tokens\<close>

text \<open>
  \<open>/([_=^]{1,2}|=)?([A-Ga-g])([',]*)(\d+(?:\/\d+)?|\/\d+|\/+)?/g\<close>.
  The four groups of a match are the accidental, the letter, the octave marks and the
  duration token; an optional group that took no part is \<open>None\<close>.
\<close>

record token =
  accidental :: "string option"
  letter :: char
  octMods :: string
  durTok :: "string option"

definition is_acc :: "char \<Rightarrow> bool" where
  "is_acc c = (c \<in> set ''_=^'')"

definition is_equals :: "char \<Rightarrow> bool" where
  "is_equals c = (c = CHR ''='')"

definition is_note_letter :: "char \<Rightarrow> bool" where
  "is_note_letter c = (c \<in> set ''ABCDEFGabcdefg'')"

definition is_oct :: "char \<Rightarrow> bool" where
  "is_oct c = (c = CHR 0x27 \<or> c = CHR '','')"

definition is_slash :: "char \<Rightarrow> bool" where
  "is_slash c = (c = CHR ''/'')"

definition rx_accidental :: "string rx" where
  "rx_accidental s = rx_rep 1 (Some 2) is_acc s @ rx_rep 1 (Some 1) is_equals s"

definition rx_letter :: "char rx" where
  "rx_letter s = (case s of [] \<Rightarrow> [] | c # r \<Rightarrow> if is_note_letter c then [(c, r)] else [])"

text \<open>\<open>\/\d+\<close>\<close>

definition rx_slash_digits :: "string rx" where
  "rx_slash_digits s =
     concat (map (\<lambda>(u, r1). map (\<lambda>(ds, r2). (CHR ''/'' # ds, r2)) (rx_digits r1))
       (rx_lit CHR ''/'' s))"

text \<open>\<open>\d+(?:\/\d+)?\<close>\<close>

definition rx_number :: "string rx" where
  "rx_number s =
     concat (map (\<lambda>(ds, r1).
       map (\<lambda>(fr, r2). (ds @ (case fr of None \<Rightarrow> [] | Some f \<Rightarrow> f), r2))
         (rx_opt rx_slash_digits r1)) (rx_digits s))"

definition rx_duration :: "string rx" where
  "rx_duration s = rx_number s @ rx_slash_digits s @ rx_rep 1 None is_slash s"

definition tokenRe :: "token rx" where
  "tokenRe s =
     concat (map (\<lambda>(acc, r1).
       concat (map (\<lambda>(l, r2).
         concat (map (\<lambda>(oct, r3).
           map (\<lambda>(dur, r4).
                 (\<lparr>accidental = acc, letter = l, octMods = oct, durTok = dur\<rparr>, r4))
             (rx_opt rx_duration r3)) (rx_rep 0 None is_oct r2))) (rx_letter r1)))
       (rx_opt rx_accidental s))"

text \<open>
  The \<open>exec\<close> loop: each search starts where the previous match ended and the loop stops
  at the first search that finds nothing.  A match is never empty (it holds a letter), so
  the input left gets shorter and the loop ends.
\<close>

lemma rx_rep_rest: "(x, r) \<in> set (rx_rep lo hi P s) \<Longrightarrow> length r \<le> length s"
  by (auto simp: rx_rep_def Let_def)

lemma rx_opt_rest:
  "(v, r) \<in> set (rx_opt rx s) \<Longrightarrow> r = s \<or> (\<exists>w. (w, r) \<in> set (rx s))"
  by (auto simp: rx_opt_def)

lemma rx_letter_rest: "(c, r) \<in> set (rx_letter s) \<Longrightarrow> length r < length s"
  by (auto simp: rx_letter_def split: list.splits if_splits)

lemma rx_slash_digits_rest: "(x, r) \<in> set (rx_slash_digits s) \<Longrightarrow> length r \<le> length s"
  by (auto simp: rx_slash_digits_def rx_lit_def rx_digits_def split: list.splits if_splits
      dest!: rx_rep_rest)

lemma rx_number_rest: "(x, r) \<in> set (rx_number s) \<Longrightarrow> length r \<le> length s"
proof -
  assume "(x, r) \<in> set (rx_number s)"
  then obtain ds r1 fr where a: "(ds, r1) \<in> set (rx_digits s)"
    and b: "(fr, r) \<in> set (rx_opt rx_slash_digits r1)"
    by (auto simp: rx_number_def)
  from a have "length r1 \<le> length s" by (simp add: rx_digits_def rx_rep_rest)
  moreover from rx_opt_rest [OF b] have "length r \<le> length r1"
    by (auto dest: rx_slash_digits_rest)
  ultimately show ?thesis by simp
qed

lemma rx_duration_rest: "(x, r) \<in> set (rx_duration s) \<Longrightarrow> length r \<le> length s"
  by (auto simp: rx_duration_def dest: rx_number_rest rx_slash_digits_rest rx_rep_rest)

lemma rx_accidental_rest: "(x, r) \<in> set (rx_accidental s) \<Longrightarrow> length r \<le> length s"
  by (auto simp: rx_accidental_def dest: rx_rep_rest)

lemma tokenRe_rest: "(m, r) \<in> set (tokenRe s) \<Longrightarrow> length r < length s"
proof -
  assume "(m, r) \<in> set (tokenRe s)"
  then obtain acc r1 l r2 oct r3 dur where a: "(acc, r1) \<in> set (rx_opt rx_accidental s)"
    and b: "(l, r2) \<in> set (rx_letter r1)"
    and c: "(oct, r3) \<in> set (rx_rep 0 None is_oct r2)"
    and d: "(dur, r) \<in> set (rx_opt rx_duration r3)"
    by (auto simp: tokenRe_def)
  from rx_opt_rest [OF a] have "length r1 \<le> length s" by (auto dest: rx_accidental_rest)
  moreover from b have "length r2 < length r1" by (rule rx_letter_rest)
  moreover from c have "length r3 \<le> length r2" by (rule rx_rep_rest)
  moreover from rx_opt_rest [OF d] have "length r \<le> length r3" by (auto dest: rx_duration_rest)
  ultimately show ?thesis by simp
qed

lemma rx_search_rest:
  assumes "\<And>u m r. (m, r) \<in> set (rx u) \<Longrightarrow> length r < length u"
  shows "rx_search rx s = Some (m, r) \<Longrightarrow> length r < length s"
proof (induction s)
  case Nil
  then show ?case using assms [of m r "[]"] by (auto split: list.splits)
next
  case (Cons c cs)
  show ?case
  proof (cases "rx (c # cs)")
    case Nil
    with Cons show ?thesis by simp
  next
    case (Cons x xs)
    with Cons.prems have "(m, r) \<in> set (rx (c # cs))" by simp
    then show ?thesis by (rule assms)
  qed
qed

function exec_loop :: "string \<Rightarrow> token list" where
  "exec_loop s =
     (case rx_search tokenRe s of None \<Rightarrow> [] | Some (m, rest) \<Rightarrow> m # exec_loop rest)"
  by pat_completeness auto
termination
proof (relation "measure length")
  show "wf (measure length)" by simp
next
  fix s :: string and x2 x y
  assume "rx_search tokenRe s = Some x2" and "(x, y) = x2"
  then have "rx_search tokenRe s = Some (x, y)" by simp
  then have "length y < length s"
    using rx_search_rest [of tokenRe s x y] tokenRe_rest by blast
  then show "(y, s) \<in> measure length" by simp
qed

subsection \<open>Durations and pitches\<close>

text \<open>\<open>/^(\d+)(?:\/(\d+))?$/\<close>\<close>

definition rx_num_den :: "(string \<times> string option) rx" where
  "rx_num_den s =
     concat (map (\<lambda>(n, r1).
       map (\<lambda>(d, r2). ((n, map_option tl d), r2)) (rx_opt rx_slash_digits r1)) (rx_digits s))"

definition num :: "nat \<Rightarrow> jsnum" where
  "num n = Fin (of_nat n)"

definition durationFromToken :: "header \<Rightarrow> string \<Rightarrow> jsnum" where
  "durationFromToken h tok =
     (if tok = [] then Fin (3 / 10)
      else if tok = ''/'' then Fin (15 / 100)
      else if rx_full (rx_rep 1 None is_slash) tok \<noteq> None
        then js_div (Fin (15 / 100)) (num (length tok))
      else
        (case rx_full rx_num_den tok of
           None \<Rightarrow> Fin (3 / 10)
         | Some (ns, ds) \<Rightarrow>
             (let n = parseInt ns;
                  d = (case ds of None \<Rightarrow> 1 | Some x \<Rightarrow> parseInt x);
                  frac = js_div (num n) (num d);
                  base = js_div (num (fst (defaultLen h))) (num (snd (defaultLen h)));
                  qFraction = js_div (num (fst (qNote h))) (num (snd (qNote h)));
                  secPerQNote = js_div (num 60) (Math_max (num 30) (Math_min (num 300) (num (qBpm h))));
                  secPerWhole = js_mul (js_div (num 1) qFraction) secPerQNote
              in Math_max (Fin (8 / 100)) (Math_min (Fin (15 / 10)) (js_mul (js_mul secPerWhole base) frac)))))"

definition baseMidi :: "char \<Rightarrow> int option" where
  "baseMidi c =
     map_of [(CHR ''C'', 60), (CHR ''D'', 62), (CHR ''E'', 64), (CHR ''F'', 65),
             (CHR ''G'', 67), (CHR ''A'', 69), (CHR ''B'', 71)] c"

definition toUpperCase :: "char \<Rightarrow> char" where
  "toUpperCase c = (if c \<in> set ''abcdefghijklmnopqrstuvwxyz'' then char_of (of_char c - (32::nat)) else c)"

definition isLower :: "char \<Rightarrow> bool" where
  "isLower c = (c \<in> set ''abcdefg'')"

definition octave_shift :: "int \<Rightarrow> char \<Rightarrow> int" where
  "octave_shift m ch = (if ch = CHR 0x27 then m + 12 else if ch = CHR '','' then m - 12 else m)"

definition accidental_shift :: "string \<Rightarrow> int" where
  "accidental_shift a =
     (if a = ''^'' then 1 else if a = ''^^'' then 2
      else if a = ''_'' then - 1 else if a = ''__'' then - 2 else 0)"

record tune_note =
  midi :: int
  seconds :: jsnum

definition note_of_token :: "header \<Rightarrow> token \<Rightarrow> tune_note option" where
  "note_of_token h m =
     (case baseMidi (toUpperCase (letter m)) of
        None \<Rightarrow> None
      | Some base \<Rightarrow>
          Some \<lparr>midi = foldl octave_shift (base + (if isLower (letter m) then 12 else 0)) (octMods m)
                        + accidental_shift (case accidental m of None \<Rightarrow> [] | Some a \<Rightarrow> a),
                seconds = durationFromToken h (case durTok m of None \<Rightarrow> [] | Some t \<Rightarrow> t)\<rparr>)"

definition parseAbcSimple :: "string \<Rightarrow> tune_note list" where
  "parseAbcSimple abcText =
     (let lines = split_lines abcText;
          h = read_headers lines
      in List.map_filter (note_of_token h) (exec_loop (tune_content lines)))"

definition parseAbcToNotes :: "string \<Rightarrow> tune_note list" where
  "parseAbcToNotes abcText =
     (let simple = parseAbcSimple abcText in if length simple > 0 then simple else [])"

text \<open>A duration that is a positive number of at most 1.5 seconds.\<close>

definition bounded_duration :: "jsnum \<Rightarrow> bool" where
  "bounded_duration x = (case x of Fin r \<Rightarrow> 0 < r \<and> r \<le> 3 / 2 | _ \<Rightarrow> False)"

section \<open>Audio: the shared context, playTone and SymphonyPlayer\<close>

text \<open>
  The browser is described by an \<open>audio_env\<close> at the moment of a call: whether there is a
  \<open>window\<close>, the context kept in \<open>window.__heartbeatAudioContext\<close>, what
  \<open>new AudioContext()\<close> gives (\<open>None\<close> when the constructor throws), and whether
  \<open>resume()\<close>, the sampled piano, the creation of the audio element or its \<open>play\<close>
  throw.  Each call gets its own environment, so the assignment to the \<open>window\<close>
  property is not tracked and every sequence of browser conditions is covered.  A context is represented by its
  \<open>state\<close> property.  Calling a method on \<open>null\<close> throws a \<open>TypeError\<close>; calls on
  an existing context or node do not throw.
\<close>

datatype ctx_status = Running | Suspended | Closed

datatype exn = TypeError | NoAudioContext | ResumeFailed | PianoFailed | AudioFileFailed | LoadFailed

record audio_env =
  has_window :: bool
  window_ctx :: "ctx_status option"
  new_ctx :: "ctx_status option"
  resume_throws :: bool
  piano_throws :: bool
  audio_file_throws :: bool
  audio_play_throws :: bool
  reverbEnabled :: bool
  reverbWet :: rat

datatype audio_event =
    Resume
  | PianoNote int jsnum
  | Tone int jsnum
  | LogPlayNote nat int jsnum
  | PopOscillator
  | PopFile
  | LogSoundUnavailable

record player =
  audioContext :: "ctx_status option"
  volume :: rat
  "notes" :: "tune_note list"
  cursor :: nat
  currentSong :: "string option"
  piano :: bool
  masterGain :: bool
  dryGain :: bool
  wetGain :: "rat option"
  convolver :: bool
  audioLog :: "audio_event list"

definition initial_player :: player where
  "initial_player =
     \<lparr>audioContext = None, volume = 1 / 4, notes = [], cursor = 0, currentSong = None,
      piano = False, masterGain = False, dryGain = False, wetGain = None, convolver = False,
      audioLog = []\<rparr>"

text \<open>
  A command runs on a state and ends normally (\<open>None\<close>) or by throwing; the state it
  leaves holds every assignment made before the throw.
\<close>

type_synonym 's cmd = "'s \<Rightarrow> exn option \<times> 's"

definition skip :: "'s cmd" where
  "skip s = (None, s)"

definition throw :: "exn \<Rightarrow> 's cmd" where
  "throw e s = (Some e, s)"

definition seq :: "'s cmd \<Rightarrow> 's cmd \<Rightarrow> 's cmd" where
  "seq c1 c2 s = (case c1 s of (None, s1) \<Rightarrow> c2 s1 | (Some e, s1) \<Rightarrow> (Some e, s1))"

definition try_catch :: "'s cmd \<Rightarrow> 's cmd \<Rightarrow> 's cmd" where
  "try_catch c handler s = (case c s of (None, s1) \<Rightarrow> (None, s1) | (Some e, s1) \<Rightarrow> handler s1)"

definition assign :: "('s \<Rightarrow> 's) \<Rightarrow> 's cmd" where
  "assign f s = (None, f s)"

definition emit :: "audio_event \<Rightarrow> player cmd" where
  "emit ev = assign (\<lambda>s. s\<lparr>audioLog := audioLog s @ [ev]\<rparr>)"

text \<open>A method call or property read on \<open>ctx\<close>.\<close>

definition deref :: "ctx_status option \<Rightarrow> 's cmd" where
  "deref ctx = (case ctx of None \<Rightarrow> throw TypeError | Some _ \<Rightarrow> skip)"

definition getOrCreateAudioContext :: "audio_env \<Rightarrow> ctx_status option" where
  "getOrCreateAudioContext env =
     (if \<not> has_window env then None
      else case window_ctx env of
             Some st \<Rightarrow> if st \<noteq> Closed then Some st else new_ctx env
           | None \<Rightarrow> new_ctx env)"

text \<open>\<open>ctx.resume()\<close> inside its own \<open>try\<close>: a failure is swallowed.\<close>

definition resume :: "audio_env \<Rightarrow> player cmd" where
  "resume env =
     try_catch
       (seq (emit Resume)
            (if resume_throws env then throw ResumeFailed
             else assign (\<lambda>s. s\<lparr>audioContext := Some Running\<rparr>)))
       skip"

text \<open>\<open>if (ctx.state === 'suspended') { try { ctx.resume() } catch (_e) {} }\<close>\<close>

definition resume_if_suspended :: "audio_env \<Rightarrow> ctx_status option \<Rightarrow> player cmd" where
  "resume_if_suspended env ctx = (if ctx = Some Suspended then resume env else skip)"

definition ensureFxChain :: "ctx_status option \<Rightarrow> player cmd" where
  "ensureFxChain ctx =
     seq (\<lambda>s. if \<not> masterGain s then seq (deref ctx) (assign (\<lambda>s. s\<lparr>masterGain := True\<rparr>)) s
               else skip s)
    (seq (\<lambda>s. if \<not> dryGain s then seq (deref ctx) (assign (\<lambda>s. s\<lparr>dryGain := True\<rparr>)) s
               else skip s)
    (seq (\<lambda>s. if wetGain s = None then seq (deref ctx) (assign (\<lambda>s. s\<lparr>wetGain := Some 0\<rparr>)) s
               else skip s)
         (\<lambda>s. if \<not> convolver s then seq (deref ctx) (assign (\<lambda>s. s\<lparr>convolver := True\<rparr>)) s
               else skip s)))"

definition applyFxSettingsFromStorage :: "audio_env \<Rightarrow> player cmd" where
  "applyFxSettingsFromStorage env =
     assign (\<lambda>s. case wetGain s of None \<Rightarrow> s
                  | Some _ \<Rightarrow> s\<lparr>wetGain := Some (if reverbEnabled env then reverbWet env else 0)\<rparr>)"

definition playTone :: "audio_env \<Rightarrow> int \<Rightarrow> jsnum \<Rightarrow> player cmd" where
  "playTone env m durationSec s =
     (let ctx = (case audioContext s of Some c \<Rightarrow> Some c | None \<Rightarrow> getOrCreateAudioContext env)
      in if ctx = None then skip s
         else
           seq (assign (\<lambda>s. s\<lparr>audioContext := ctx\<rparr>))
          (seq (resume_if_suspended env ctx)
          (seq (deref ctx)
               (emit (Tone m (Math_max (Fin (1 / 10))
                                (Math_min (Fin 1) (js_or durationSec (Fin (3 / 10))))))))) s)"

text \<open>
  \<open>SymphonyPlayer.init\<close>, with the outcome of the instrument load and of the song fetch
  given: \<open>Inl\<close> for a failed fetch, \<open>Inr\<close> for the tune text.  It returns whether notes
  were loaded.  The model runs the function in one piece: the state between its
  \<open>await\<close>s is not observed.
\<close>

definition init_body :: "audio_env \<Rightarrow> bool \<Rightarrow> exn + string \<Rightarrow> string \<Rightarrow> player cmd" where
  "init_body env piano_loads abc filename =
     seq (assign (\<lambda>s. s\<lparr>audioContext := getOrCreateAudioContext env\<rparr>))
    (seq (\<lambda>s. ensureFxChain (audioContext s) s)
    (seq (applyFxSettingsFromStorage env)
    (seq (try_catch
            (\<lambda>s. if \<not> piano s
                  then (if piano_loads then assign (\<lambda>s. s\<lparr>piano := True\<rparr>) s
                        else throw PianoFailed s)
                  else skip s)
            (assign (\<lambda>s. s\<lparr>piano := False\<rparr>)))
         (case abc of
            Inl e \<Rightarrow> throw e
          | Inr text \<Rightarrow>
              assign (\<lambda>s. s\<lparr>notes := parseAbcToNotes text, cursor := 0,
                              currentSong := Some filename\<rparr>)))))"

definition init :: "audio_env \<Rightarrow> bool \<Rightarrow> exn + string \<Rightarrow> string \<Rightarrow> player \<Rightarrow> bool \<times> player" where
  "init env piano_loads abc filename s =
     (case init_body env piano_loads abc filename s of
        (None, s1) \<Rightarrow> (length (notes s1) > 0, s1)
      | (Some e, s1) \<Rightarrow> (False, s1\<lparr>notes := [], cursor := 0\<rparr>))"

definition play_piano :: "audio_env \<Rightarrow> ctx_status option \<Rightarrow> int \<Rightarrow> jsnum \<Rightarrow> player cmd" where
  "play_piano env ctx m secs =
     seq (deref ctx)
    (seq (if piano_throws env then throw PianoFailed else skip)
         (emit (PianoNote m (Math_max (Fin (1 / 10)) (js_or secs (Fin (3 / 10)))))))"

text \<open>
  The sampled piano when it is loaded and there is a context, with \<open>playTone\<close> as the
  fallback when it throws; \<open>playTone\<close> otherwise.
\<close>

definition sound_note :: "audio_env \<Rightarrow> ctx_status option \<Rightarrow> int \<Rightarrow> jsnum \<Rightarrow> player cmd" where
  "sound_note env ctx m secs s =
     (if piano s \<and> ctx \<noteq> None
      then try_catch (play_piano env ctx m secs) (playTone env m (js_or secs (Fin (3 / 10)))) s
      else playTone env m (js_or secs (Fin (3 / 10))) s)"

text \<open>
  Every note comes from \<open>parseAbcSimple\<close>, so its \<open>midi\<close> is a number and the test
  \<open>typeof midi === 'number'\<close> holds.
\<close>

definition playNextNote :: "audio_env \<Rightarrow> player cmd" where
  "playNextNote env s =
     (if notes s = [] then skip s
      else
        (let idx = cursor s mod length (notes s);
             m = midi (notes s ! idx);
             secs = seconds (notes s ! idx);
             ctx = (case audioContext s of Some c \<Rightarrow> Some c | None \<Rightarrow> getOrCreateAudioContext env)
         in seq (assign (\<lambda>s. s\<lparr>cursor := (idx + 1) mod length (notes s)\<rparr>))
           (seq (assign (\<lambda>s. s\<lparr>audioContext := ctx\<rparr>))
           (seq (resume_if_suspended env ctx)
           (seq (ensureFxChain ctx)
           (seq (applyFxSettingsFromStorage env)
           (seq (sound_note env ctx m secs)
                (emit (LogPlayNote idx m secs))))))) s))"

text \<open>A series of \<open>playNextNote\<close> calls, one environment per call; a throw ends one call, not the series.\<close>

fun play_calls :: "audio_env list \<Rightarrow> player \<Rightarrow> exn option list \<times> player" where
  "play_calls [] s = ([], s)"
| "play_calls (env # envs) s =
     (case playNextNote env s of
        (r, s1) \<Rightarrow> (case play_calls envs s1 of (rs, s2) \<Rightarrow> (r # rs, s2)))"



subsection \<open>The pop sound of a bubble\<close>






subsection \<open>Reading the audio log\<close>

text \<open>
  The effect chain is complete when its four nodes exist.  \<open>logged\<close> reads the note a
  call reported (its index in the tune and the note), \<open>sounded\<close> the pitch of a sound
  that was started.
\<close>

definition fx_complete :: "player \<Rightarrow> bool" where
  "fx_complete s = (masterGain s \<and> dryGain s \<and> wetGain s \<noteq> None \<and> convolver s)"

fun logged :: "audio_event \<Rightarrow> (nat \<times> tune_note) option" where
  "logged (LogPlayNote i m secs) = Some (i, \<lparr>midi = m, seconds = secs\<rparr>)"
| "logged _ = None"

fun sounded :: "audio_event \<Rightarrow> int option" where
  "sounded (PianoNote m d) = Some m"
| "sounded (Tone m d) = Some m"
| "sounded _ = None"

text \<open>
  The index \<open>playNextNote\<close> reads, the context it uses, and the invariant of the module
  state: a tune is only ever loaded after the effect chain has been built.
\<close>

definition selected :: "player \<Rightarrow> nat" where
  "selected s = cursor s mod length (notes s)"

definition acquired :: "audio_env \<Rightarrow> player \<Rightarrow> ctx_status option" where
  "acquired env s = (case audioContext s of Some c \<Rightarrow> Some c | None \<Rightarrow> getOrCreateAudioContext env)"


section \<open>BubbleAnimation: the message queue and the displayed bubbles\<close>

text \<open>
  The component keeps the displayed bubbles, the message queue, the \<open>processing\<close> flag
  and its pending timers.  A timer is the deadline before which it cannot fire.  Every
  call of \<open>Math.random()\<close> is an input (\<open>draws\<close>), and \<open>Date.now()\<close> is the time of the
  action.  Three logs record what was pushed on the queue, what was handed to \<open>addBubble\<close>
  and when, and how often the pop sound was requested.
\<close>

definition MAX_BUBBLES :: nat where "MAX_BUBBLES = 12"
definition BUBBLE_LIFETIME :: nat where "BUBBLE_LIFETIME = 30000"
definition QUEUE_DELAY :: nat where "QUEUE_DELAY = 50"
definition NEXT_DELAY :: nat where "NEXT_DELAY = 100"

record msg_object =
  mo_text :: "string option"
  mo_id :: "rat option"
  mo_timestamp :: "nat option"
  mo_event_type :: "string option"

datatype message_prop = NoMessage | TextMessage string | ObjectMessage msg_object

record queued =
  q_message :: string
  q_id :: rat
  q_timestamp :: nat
  q_eventType :: string

record draws =
  rnd_id :: rat
  rnd_color :: rat
  rnd_left :: rat
  rnd_variant :: rat

record bubble =
  b_id :: rat
  b_message :: string
  b_color :: "string option"
  b_left :: rat
  b_eventType :: string
  b_variantClass :: string

record bubble_anim =
  bubbles :: "bubble list"
  messageQueue :: "queued list"
  processing :: bool
  queueTimers :: "nat list"
  nextTimers :: "nat list"
  lifetimeTimers :: "(nat \<times> rat) list"
  clock :: nat
  enqueued :: "queued list"
  presented :: "(nat \<times> queued) list"
  popRequests :: nat
  completed :: "rat list"

definition initial_anim :: bubble_anim where
  "initial_anim =
     \<lparr>bubbles = [], messageQueue = [], processing = False, queueTimers = [], nextTimers = [],
      lifetimeTimers = [], clock = 0, enqueued = [], presented = [], popRequests = 0,
      completed = []\<rparr>"

definition colors :: "string list" where
  "colors = [''#1a4d8c'', ''#6b3fa0'', ''#8b2252'', ''#1e7a5e'', ''#c05621'',
             ''#2d5016'', ''#7c2d2d'', ''#853d0d'', ''#1e3a5f'', ''#4a148c'']"

definition pick_color :: "rat \<Rightarrow> string option" where
  "pick_color r =
     (let i = \<lfloor>r * of_nat (length colors)\<rfloor>
      in if 0 \<le> i \<and> nat i < length colors then Some (colors ! nat i) else None)"

text \<open>The state update of \<open>addBubble\<close>: append, then keep the last \<open>MAX_BUBBLES\<close>.\<close>

definition limit_bubbles :: "bubble list \<Rightarrow> bubble \<Rightarrow> bubble list" where
  "limit_bubbles prev b =
     (let newBubbles = prev @ [b]
      in if length newBubbles > MAX_BUBBLES
         then drop (length newBubbles - MAX_BUBBLES) newBubbles
         else newBubbles)"

text \<open>The display item \<open>addBubble\<close> builds for a message.\<close>

definition make_bubble :: "nat \<Rightarrow> draws \<Rightarrow> string \<Rightarrow> string \<Rightarrow> bubble" where
  "make_bubble now d msg eventType =
     \<lparr>b_id = of_nat now + rnd_id d, b_message = msg, b_color = pick_color (rnd_color d),
      b_left = rnd_left d * 80 + 10, b_eventType = eventType,
      b_variantClass = (if rnd_variant d < 1 / 2 then ''bubble-left'' else ''bubble-right'')\<rparr>"

definition addBubble :: "nat \<Rightarrow> draws \<Rightarrow> string \<Rightarrow> string \<Rightarrow> bubble_anim \<Rightarrow> bubble_anim" where
  "addBubble now d msg eventType s =
     (let b = make_bubble now d msg eventType
      in s\<lparr>bubbles := limit_bubbles (bubbles s) b,
            popRequests := popRequests s + 1,
            lifetimeTimers := lifetimeTimers s @ [(now + BUBBLE_LIFETIME, b_id b)]\<rparr>)"

text \<open>The callback of a lifetime timer.\<close>

definition remove_bubble :: "rat \<Rightarrow> bubble_anim \<Rightarrow> bubble_anim" where
  "remove_bubble ident s =
     s\<lparr>bubbles := filter (\<lambda>b. b_id b \<noteq> ident) (bubbles s), completed := completed s @ [ident]\<rparr>"

definition processNext :: "nat \<Rightarrow> draws \<Rightarrow> bubble_anim \<Rightarrow> bubble_anim" where
  "processNext now d s =
     (case messageQueue s of
        msgData # rest \<Rightarrow>
          (let s1 = addBubble now d (q_message msgData) (q_eventType msgData)
                      (s\<lparr>messageQueue := rest, presented := presented s @ [(now, msgData)]\<rparr>)
           in s1\<lparr>nextTimers := nextTimers s1 @ [now + NEXT_DELAY]\<rparr>)
      | [] \<Rightarrow> s\<lparr>processing := False\<rparr>)"

definition processMessageQueue :: "nat \<Rightarrow> draws \<Rightarrow> bubble_anim \<Rightarrow> bubble_anim" where
  "processMessageQueue now d s =
     (if processing s then s
      else if messageQueue s = [] then s
      else processNext now d (s\<lparr>processing := True\<rparr>))"

text \<open>The effect that runs when the \<open>message\<close> prop changes.\<close>

definition truthy_num :: "rat option \<Rightarrow> bool" where
  "truthy_num v = (case v of None \<Rightarrow> False | Some x \<Rightarrow> x \<noteq> 0)"

definition on_message :: "nat \<Rightarrow> draws \<Rightarrow> message_prop \<Rightarrow> bubble_anim \<Rightarrow> bubble_anim" where
  "on_message now d message s =
     (let messageText = (case message of
                           NoMessage \<Rightarrow> None
                         | TextMessage m \<Rightarrow> Some m
                         | ObjectMessage ob \<Rightarrow> (if truthy_str (mo_text ob) then mo_text ob else None));
          ob = (case message of ObjectMessage ob \<Rightarrow> ob
                | _ \<Rightarrow> \<lparr>mo_text = None, mo_id = None, mo_timestamp = None, mo_event_type = None\<rparr>)
      in if truthy_str messageText then
           (let entry = \<lparr>q_message = the messageText,
                         q_id = (if truthy_num (mo_id ob) then the (mo_id ob) else of_nat now + rnd_id d),
                         q_timestamp = (case mo_timestamp ob of None \<Rightarrow> now
                                        | Some ts \<Rightarrow> if ts = 0 then now else ts),
                         q_eventType = or_str (mo_event_type ob) ''checkin''\<rparr>
            in s\<lparr>messageQueue := messageQueue s @ [entry],
                  enqueued := enqueued s @ [entry],
                  queueTimers := queueTimers s @ [now + QUEUE_DELAY]\<rparr>)
         else s)"

text \<open>
  What can happen to the component: a new message prop, or one of its pending timers
  firing (chosen by its position among the pending ones).  A timer fires at or after its
  deadline, and time does not run backwards; otherwise the step is not possible
  (\<open>None\<close>).
\<close>

datatype anim_action = Message message_prop | QueueTimer nat | NextTimer nat | LifetimeTimer nat

definition remove_nth :: "nat \<Rightarrow> 'a list \<Rightarrow> 'a list" where
  "remove_nth i xs = take i xs @ drop (Suc i) xs"

definition anim_step :: "nat \<times> draws \<times> anim_action \<Rightarrow> bubble_anim \<Rightarrow> bubble_anim option" where
  "anim_step ev s0 =
     (let now = fst ev; d = fst (snd ev); s = s0\<lparr>clock := now\<rparr>
      in if now < clock s0 then None
         else case snd (snd ev) of
           Message m \<Rightarrow> Some (on_message now d m s)
         | QueueTimer i \<Rightarrow>
             if i < length (queueTimers s) \<and> queueTimers s ! i \<le> now
             then Some (processMessageQueue now d (s\<lparr>queueTimers := remove_nth i (queueTimers s)\<rparr>))
             else None
         | NextTimer i \<Rightarrow>
             if i < length (nextTimers s) \<and> nextTimers s ! i \<le> now
             then Some (processNext now d (s\<lparr>nextTimers := remove_nth i (nextTimers s)\<rparr>))
             else None
         | LifetimeTimer i \<Rightarrow>
             if i < length (lifetimeTimers s) \<and> fst (lifetimeTimers s ! i) \<le> now
             then Some (remove_bubble (snd (lifetimeTimers s ! i))
                          (s\<lparr>lifetimeTimers := remove_nth i (lifetimeTimers s)\<rparr>))
             else None)"

fun anim_run :: "(nat \<times> draws \<times> anim_action) list \<Rightarrow> bubble_anim \<Rightarrow> bubble_anim option" where
  "anim_run [] s = Some s"
| "anim_run (ev # evs) s = (case anim_step ev s of None \<Rightarrow> None | Some s1 \<Rightarrow> anim_run evs s1)"

text \<open>Successive times are at least \<open>w\<close> apart.\<close>

fun spaced :: "nat \<Rightarrow> nat list \<Rightarrow> bool" where
  "spaced w [] = True"
| "spaced w [t] = True"
| "spaced w (t # u # ts) = (t + w \<le> u \<and> spaced w (u # ts))"

text \<open>
  What holds between any two steps of the component: the messages presented so far
  followed by the queue are the messages pushed; while the drain loop runs exactly one
  \<open>processNext\<close> timer is pending, due a full delay after the last presentation, and
  while it does not run none is pending and that delay has passed; presentations are
  spaced by the delay; a non-empty queue has a timer that will drain it; and the number
  of bubbles is capped.
\<close>

definition anim_inv :: "bubble_anim \<Rightarrow> bool" where
  "anim_inv s =
     (map snd (presented s) @ messageQueue s = enqueued s \<and>
      (if processing s
       then (presented s \<noteq> [] \<and> nextTimers s = [fst (last (presented s)) + NEXT_DELAY])
       else (nextTimers s = [] \<and>
             (presented s = [] \<or> fst (last (presented s)) + NEXT_DELAY \<le> clock s))) \<and>
      spaced NEXT_DELAY (map fst (presented s)) \<and>
      (messageQueue s = [] \<or> queueTimers s \<noteq> [] \<or> nextTimers s \<noteq> []) \<and>
      length (bubbles s) \<le> MAX_BUBBLES)"

text \<open>
  What is displayed: the text and the kind of a bubble and of a queued message; the
  displayed bubbles are always taken, in order, from the messages presented, and as long
  as no bubble has expired they are exactly the last \<open>MAX_BUBBLES\<close> of them.
\<close>

definition bubble_content :: "bubble \<Rightarrow> string \<times> string" where
  "bubble_content b = (b_message b, b_eventType b)"

definition queued_content :: "queued \<Rightarrow> string \<times> string" where
  "queued_content m = (q_message m, q_eventType m)"

definition display_inv :: "bubble_anim \<Rightarrow> bool" where
  "display_inv s =
     (subseq (map bubble_content (bubbles s)) (map (queued_content \<circ> snd) (presented s)) \<and>
      (completed s \<noteq> [] \<or>
       map bubble_content (bubbles s) =
         drop (length (presented s) - MAX_BUBBLES) (map (queued_content \<circ> snd) (presented s))))"

section \<open>Sample inputs\<close>

text \<open>Concrete inputs on which the properties below are instantiated.\<close>

definition sample_checkin :: checkin_data where
  "sample_checkin = \<lparr>cd_message = Some ''Ada checked in'', cd_event_type = Some ''checkin'',
                      cd_checkin_type = Some ''session'', cd_session_id = Some ''s1''\<rparr>"

definition sample_settings :: settings where
  "sample_settings = \<lparr>soundEnabled = True, soundMode = ''Symphony'',
                        currentEventId = JStr ''42'', currentApiKey = ''key''\<rparr>"

definition sample_draws :: draws where
  "sample_draws = \<lparr>rnd_id = 1 / 2, rnd_color = 3 / 10, rnd_left = 1 / 4, rnd_variant = 7 / 10\<rparr>"

text \<open>
  Three messages arrive within 20 ms; the first queue timer starts the drain loop, the
  second finds it running, and the \<open>processNext\<close> timer presents the second message.
\<close>

definition sample_burst :: "(nat \<times> draws \<times> anim_action) list" where
  "sample_burst =
     [(0, sample_draws, Message (TextMessage ''a'')),
      (10, sample_draws, Message (TextMessage ''b'')),
      (20, sample_draws, Message (TextMessage ''c'')),
      (50, sample_draws, QueueTimer 0),
      (60, sample_draws, QueueTimer 0),
      (150, sample_draws, NextTimer 0)]"

text \<open>Thirteen messages, all presented before the first bubble expires.\<close>

definition sample_thirteen :: "(nat \<times> draws \<times> anim_action) list" where
  "sample_thirteen =
     [(0, sample_draws, Message (TextMessage ''a'')),
      (1, sample_draws, Message (TextMessage ''b'')),
      (2, sample_draws, Message (TextMessage ''c'')),
      (3, sample_draws, Message (TextMessage ''d'')),
      (4, sample_draws, Message (TextMessage ''e'')),
      (5, sample_draws, Message (TextMessage ''f'')),
      (6, sample_draws, Message (TextMessage ''g'')),
      (7, sample_draws, Message (TextMessage ''h'')),
      (8, sample_draws, Message (TextMessage ''i'')),
      (9, sample_draws, Message (TextMessage ''j'')),
      (10, sample_draws, Message (TextMessage ''k'')),
      (11, sample_draws, Message (TextMessage ''l'')),
      (12, sample_draws, Message (TextMessage ''m'')),
      (50, sample_draws, QueueTimer 0),
      (150, sample_draws, NextTimer 0),
      (250, sample_draws, NextTimer 0),
      (350, sample_draws, NextTimer 0),
      (450, sample_draws, NextTimer 0),
      (550, sample_draws, NextTimer 0),
      (650, sample_draws, NextTimer 0),
      (750, sample_draws, NextTimer 0),
      (850, sample_draws, NextTimer 0),
      (950, sample_draws, NextTimer 0),
      (1050, sample_draws, NextTimer 0),
      (1150, sample_draws, NextTimer 0),
      (1250, sample_draws, NextTimer 0)]"




definition sample_bad_tune :: string where
  "sample_bad_tune = ''Q:1/4\<newline>C1''"

text \<open>
  A browser that creates a suspended context on demand, one in which no context can be
  created, the player after loading a four-note tune in the first, and after loading a
  two-note tune in the second.
\<close>

definition sample_env :: audio_env where
  "sample_env = \<lparr>has_window = True, window_ctx = None, new_ctx = Some Suspended,
                  resume_throws = False, piano_throws = False, audio_file_throws = False,
                  audio_play_throws = False,
                  reverbEnabled = False, reverbWet = 0\<rparr>"

definition sample_no_audio :: audio_env where
  "sample_no_audio = \<lparr>has_window = True, window_ctx = None, new_ctx = None,
                  resume_throws = False, piano_throws = False, audio_file_throws = False,
                  audio_play_throws = False,
                  reverbEnabled = False, reverbWet = 0\<rparr>"

definition sample_loaded :: player where
  "sample_loaded = snd (init sample_env False (Inr ''CDEF'') ''tune.abc'' initial_player)"



section \<open>Properties of the dashboard\<close>

text \<open>
  C3.  Applying a fresh statistics snapshot (a successful \<open>fetchStats\<close>) stores the
  snapshot and sets both increment counters to zero whatever they were before; the count
  shown for the event and the session check-ins is the snapshot value (zero when the
  field is absent) plus the current increment, so right after the snapshot it is the
  snapshot value alone.
\<close>

theorem fetchStats_resets_increments:
  "eventIncrement (fetchStats ab now (Inr data) s) = 0 \<and>
   sessionIncrement (fetchStats ab now (Inr data) s) = 0 \<and>
   d_stats (fetchStats ab now (Inr data) s) = data \<and>
   shown_event s = or_zero (event_checkins (d_stats s)) + int (eventIncrement s) \<and>
   shown_session s = or_zero (session_checkins (d_stats s)) + int (sessionIncrement s) \<and>
   shown_event (fetchStats ab now (Inr data) s) = or_zero (event_checkins data) \<and>
   shown_session (fetchStats ab now (Inr data) s) = or_zero (session_checkins data)"
  by (simp add: fetchStats_def shown_event_def shown_session_def)

lemma fetchLog_on_checkin_event:
  "fetchLog (on_checkin_event cfg now data s) = fetchLog s"
  by (simp add: on_checkin_event_def rearm_refresh_def setTimeout_def clearTimeout_def
      request_note_def count_checkin_def show_message_def Let_def split: option.splits)

lemma timers_on_checkin_event:
  "refreshTimers (on_checkin_event cfg now data s) =
     filter (\<lambda>tm. Some (fst tm) \<noteq> pendingStatsRefresh s) (refreshTimers s)
       @ [(nextHandle s, now + REFRESH_DELAY_EVENT)] \<and>
   pendingStatsRefresh (on_checkin_event cfg now data s) = Some (nextHandle s) \<and>
   nextHandle (on_checkin_event cfg now data s) = nextHandle s + 1"
  by (simp add: on_checkin_event_def rearm_refresh_def setTimeout_def clearTimeout_def
      request_note_def count_checkin_def show_message_def Let_def split: option.splits)

lemma fire_refresh_one_timer: "one_timer s \<Longrightarrow> one_timer (fire_refresh t s)"
  by (auto simp: one_timer_def fire_refresh_def split: option.splits if_splits)

lemma on_checkin_event_one_timer:
  assumes "one_timer s"
  shows "refreshTimers (on_checkin_event cfg now data s) = [(nextHandle s, now + REFRESH_DELAY_EVENT)]"
    and "one_timer (on_checkin_event cfg now data s)"
proof -
  from assms have "filter (\<lambda>tm. Some (fst tm) \<noteq> pendingStatsRefresh s) (refreshTimers s) = []"
    by (cases "pendingStatsRefresh s"; cases "refreshTimers s") (auto simp: one_timer_def)
  with timers_on_checkin_event [of cfg now data s]
  show "refreshTimers (on_checkin_event cfg now data s) = [(nextHandle s, now + REFRESH_DELAY_EVENT)]"
    and "one_timer (on_checkin_event cfg now data s)"
    by (simp_all add: one_timer_def)
qed

lemma fire_refresh_not_due:
  "refreshTimers s = [(h, d)] \<Longrightarrow> t < d \<Longrightarrow> fire_refresh t s = s"
  by (simp add: fire_refresh_def is_due_def)

lemma run_checkins_burst:
  "evs \<noteq> [] \<Longrightarrow> burst REFRESH_DELAY_EVENT (map fst evs) \<Longrightarrow> one_timer s \<Longrightarrow>
     map snd (refreshTimers (run_checkins cfg evs s)) = [fst (last evs) + REFRESH_DELAY_EVENT] \<and>
     one_timer (run_checkins cfg evs s) \<and>
     fetchLog (run_checkins cfg evs s) = fetchLog (fire_refresh (fst (hd evs)) s)"
proof (induction evs arbitrary: s)
  case Nil
  then show ?case by simp
next
  case (Cons e evs)
  let ?s1 = "deliver_checkin cfg s e"
  have o0: "one_timer (fire_refresh (fst e) s)" using Cons.prems(3) by (rule fire_refresh_one_timer)
  have t1: "refreshTimers ?s1 = [(nextHandle (fire_refresh (fst e) s), fst e + REFRESH_DELAY_EVENT)]"
    and o1: "one_timer ?s1"
    using on_checkin_event_one_timer [OF o0] by (simp_all add: deliver_checkin_def)
  have l1: "fetchLog ?s1 = fetchLog (fire_refresh (fst e) s)"
    by (simp add: deliver_checkin_def fetchLog_on_checkin_event)
  have run: "run_checkins cfg (e # evs) s = run_checkins cfg evs ?s1"
    by (simp add: run_checkins_def)
  show ?case
  proof (cases evs)
    case Nil
    then show ?thesis using t1 o1 l1 by (simp add: run run_checkins_def)
  next
    case (Cons e2 rest)
    from Cons.prems Cons have lt: "fst e2 < fst e + REFRESH_DELAY_EVENT"
      and b: "burst REFRESH_DELAY_EVENT (map fst evs)" by simp_all
    have ne: "evs \<noteq> []" using Cons by simp
    have nf: "fire_refresh (fst e2) ?s1 = ?s1"
      using fire_refresh_not_due [OF t1 lt] .
    have ih: "map snd (refreshTimers (run_checkins cfg evs ?s1)) =
                [fst (last evs) + REFRESH_DELAY_EVENT] \<and>
              one_timer (run_checkins cfg evs ?s1) \<and>
              fetchLog (run_checkins cfg evs ?s1) = fetchLog (fire_refresh (fst (hd evs)) ?s1)"
      by (rule Cons.IH [OF ne b o1])
    have hd2: "fire_refresh (fst (hd evs)) ?s1 = ?s1" using nf Cons by simp
    have last2: "last (e # evs) = last evs" using ne by simp
    show ?thesis using ih l1 by (simp only: run hd2 last2 list.sel)
  qed
qed

text \<open>
  C5.  Every \<open>checkin_event\<close> removes the timer the ref points to and arms a new one,
  due a full window (10 seconds) later, to which the ref then points.  So for a burst of
  events, each less than a window after the one before, that starts with no timer armed:
  no reconciliation fetch runs before the last event plus the window, and exactly one
  runs then, after which no timer is left.
\<close>

theorem debounce_one_fetch:
  assumes "evs \<noteq> []" and "burst REFRESH_DELAY_EVENT (map fst evs)"
    and "refreshTimers s = []" and "pendingStatsRefresh s = None" and "fetchLog s = []"
  shows "refreshTimers (on_checkin_event cfg now data s0) =
       filter (\<lambda>tm. Some (fst tm) \<noteq> pendingStatsRefresh s0) (refreshTimers s0)
         @ [(nextHandle s0, now + REFRESH_DELAY_EVENT)] \<and>
    pendingStatsRefresh (on_checkin_event cfg now data s0) = Some (nextHandle s0) \<and>
    REFRESH_DELAY_EVENT = 10000 \<and>
    (\<forall>t < fst (last evs) + REFRESH_DELAY_EVENT.
        fetchLog (fire_refresh t (run_checkins cfg evs s)) = []) \<and>
    (\<forall>t \<ge> fst (last evs) + REFRESH_DELAY_EVENT.
        fetchLog (fire_refresh t (run_checkins cfg evs s)) = [fst (last evs) + REFRESH_DELAY_EVENT] \<and>
        refreshTimers (fire_refresh t (run_checkins cfg evs s)) = [] \<and>
        pendingStatsRefresh (fire_refresh t (run_checkins cfg evs s)) = None)"
proof -
  from assms(3,4) have o: "one_timer s" by (simp add: one_timer_def)
  from assms(3) have f0: "fire_refresh (fst (hd evs)) s = s" by (simp add: fire_refresh_def)
  from run_checkins_burst [OF assms(1,2) o, of cfg] f0 assms(5)
  have p: "map snd (refreshTimers (run_checkins cfg evs s)) = [fst (last evs) + REFRESH_DELAY_EVENT]"
    and l: "fetchLog (run_checkins cfg evs s) = []"
    by simp_all
  from p obtain h where tm: "refreshTimers (run_checkins cfg evs s) =
      [(h, fst (last evs) + REFRESH_DELAY_EVENT)]"
    by (cases "refreshTimers (run_checkins cfg evs s)") auto
  have before: "\<forall>t < fst (last evs) + REFRESH_DELAY_EVENT.
        fetchLog (fire_refresh t (run_checkins cfg evs s)) = []"
    using tm l by (simp add: fire_refresh_def is_due_def)
  have after: "\<forall>t \<ge> fst (last evs) + REFRESH_DELAY_EVENT.
        fetchLog (fire_refresh t (run_checkins cfg evs s)) = [fst (last evs) + REFRESH_DELAY_EVENT] \<and>
        refreshTimers (fire_refresh t (run_checkins cfg evs s)) = [] \<and>
        pendingStatsRefresh (fire_refresh t (run_checkins cfg evs s)) = None"
    using tm l by (simp add: fire_refresh_def is_due_def)
  from timers_on_checkin_event [of cfg now data s0] before after show ?thesis
    by (simp add: REFRESH_DELAY_EVENT_def)
qed

theorem debounce_one_fetch_witness:
  "fetchLog (fire_refresh 10049 (run_checkins sample_settings
       [(0, sample_checkin), (50, sample_checkin)] initial_dashboard)) = [] \<and>
   fetchLog (fire_refresh 10050 (run_checkins sample_settings
       [(0, sample_checkin), (50, sample_checkin)] initial_dashboard)) = [10050] \<and>
   fetchLog (fire_refresh 99999 (run_checkins sample_settings
       [(0, sample_checkin), (50, sample_checkin)] initial_dashboard)) = [10050]"
proof -
  have a: "[(0::nat, sample_checkin), (50, sample_checkin)] \<noteq> []" by simp
  have b: "burst REFRESH_DELAY_EVENT (map fst [(0::nat, sample_checkin), (50, sample_checkin)])"
    by (simp add: REFRESH_DELAY_EVENT_def)
  have c: "refreshTimers initial_dashboard = []" by (simp add: initial_dashboard_def)
  have d: "pendingStatsRefresh initial_dashboard = None" by (simp add: initial_dashboard_def)
  have e: "fetchLog initial_dashboard = []" by (simp add: initial_dashboard_def)
  from debounce_one_fetch [OF a b c d e, of sample_settings]
  show ?thesis by (simp add: REFRESH_DELAY_EVENT_def)
qed

text \<open>
  C10.  A \<open>checkin_poke\<close> whose payload is null, or whose event id differs as a string
  from the subscribed event id, leaves the whole client state as it was: no bubble
  message, no counter change, no lookup and no re-armed reconciliation timer.
\<close>

theorem checkin_poke_guard:
  "data = None \<or> (\<exists>d. data = Some d \<and> String_of (pk_event_id d) \<noteq> String_of (currentEventId cfg))
   \<Longrightarrow> on_checkin_poke cfg now data s = s"
  by (auto simp: on_checkin_poke_def)

theorem checkin_poke_guard_witness:
  "on_checkin_poke sample_settings 7 None initial_dashboard = initial_dashboard \<and>
   String_of (JNum 41) \<noteq> String_of (currentEventId sample_settings) \<and>
   on_checkin_poke sample_settings 7
      (Some \<lparr>pk_event_id = JNum 41, pk_resource_ids = Some [''r1'']\<rparr>) initial_dashboard
     = initial_dashboard"
proof -
  have ne: "String_of (JNum 41) \<noteq> String_of (currentEventId sample_settings)"
    by code_simp
  have "on_checkin_poke sample_settings 7 None initial_dashboard = initial_dashboard"
    using checkin_poke_guard [of None sample_settings 7 initial_dashboard] by simp
  moreover have "on_checkin_poke sample_settings 7
      (Some \<lparr>pk_event_id = JNum 41, pk_resource_ids = Some [''r1'']\<rparr>) initial_dashboard
     = initial_dashboard"
    using checkin_poke_guard [of "Some \<lparr>pk_event_id = JNum 41, pk_resource_ids = Some [''r1'']\<rparr>"
        sample_settings 7 initial_dashboard] ne by simp
  ultimately show ?thesis using ne by simp
qed

section \<open>Properties of the bubble animation\<close>

lemma spaced_snoc:
  "spaced w (ts @ [t]) = (spaced w ts \<and> (ts = [] \<or> last ts + w \<le> t))"
  by (induction w ts rule: spaced.induct) auto

lemma spaced_snoc_fst:
  "spaced w (map fst xs @ [t]) = (spaced w (map fst xs) \<and> (xs = [] \<or> fst (last xs) + w \<le> t))"
  by (cases "xs = []") (simp_all add: spaced_snoc last_map)

lemma length_limit_bubbles: "length (limit_bubbles prev b) \<le> MAX_BUBBLES"
  by (simp add: limit_bubbles_def Let_def MAX_BUBBLES_def)

lemma limit_bubbles_below: "length prev < MAX_BUBBLES \<Longrightarrow> limit_bubbles prev b = prev @ [b]"
  by (simp add: limit_bubbles_def Let_def)

lemma limit_bubbles_full: "length prev = MAX_BUBBLES \<Longrightarrow> limit_bubbles prev b = tl prev @ [b]"
  by (cases prev) (simp_all add: limit_bubbles_def Let_def MAX_BUBBLES_def)

lemma processNext_inv:
  assumes "map snd (presented s) @ messageQueue s = enqueued s"
    and "spaced NEXT_DELAY (map fst (presented s))"
    and "nextTimers s = []" and "processing s"
    and "presented s = [] \<or> fst (last (presented s)) + NEXT_DELAY \<le> now"
    and "clock s = now"
    and "length (bubbles s) \<le> MAX_BUBBLES"
  shows "anim_inv (processNext now d s)"
proof (cases "messageQueue s")
  case Nil
  with assms show ?thesis
    by (auto simp: anim_inv_def processNext_def)
next
  case (Cons m rest)
  with assms show ?thesis
    by (auto simp: anim_inv_def processNext_def addBubble_def Let_def spaced_snoc_fst
        length_limit_bubbles)
qed

lemma anim_step_inv:
  assumes "anim_inv s" and "anim_step ev s = Some s'"
  shows "anim_inv s'"
proof -
  obtain now d a where ev: "ev = (now, d, a)" by (cases ev) auto
  from assms(2) ev have t: "clock s \<le> now"
    by (auto simp: anim_step_def Let_def split: if_splits)
  show ?thesis
  proof (cases a)
    case (Message m)
    with assms ev t show ?thesis
      by (auto simp: anim_step_def anim_inv_def on_message_def Let_def split: if_splits)
  next
    case (QueueTimer i)
    show ?thesis
    proof (cases "processing s \<or> messageQueue s = []")
      case True
      with assms ev t QueueTimer show ?thesis
        by (auto simp: anim_step_def anim_inv_def processMessageQueue_def Let_def split: if_splits)
    next
      case False
      let ?s1 = "s\<lparr>clock := now, queueTimers := remove_nth i (queueTimers s), processing := True\<rparr>"
      from assms ev QueueTimer False have s': "s' = processNext now d ?s1"
        by (auto simp: anim_step_def processMessageQueue_def Let_def split: if_splits)
      from assms(1) False t show ?thesis unfolding s'
        by (intro processNext_inv) (auto simp: anim_inv_def)
    qed
  next
    case (NextTimer i)
    let ?s1 = "s\<lparr>clock := now, nextTimers := remove_nth i (nextTimers s)\<rparr>"
    from assms ev NextTimer have en: "i < length (nextTimers s)" "nextTimers s ! i \<le> now"
      and s': "s' = processNext now d ?s1"
      by (auto simp: anim_step_def Let_def split: if_splits)
    from en assms(1) have p: "processing s" by (auto simp: anim_inv_def split: if_splits)
    from p assms(1) have nt: "nextTimers s = [fst (last (presented s)) + NEXT_DELAY]"
      and ne: "presented s \<noteq> []" by (auto simp: anim_inv_def)
    from en nt have i0: "i = 0" by simp
    from en nt i0 have due: "fst (last (presented s)) + NEXT_DELAY \<le> now" by simp
    from assms(1) p nt i0 due show ?thesis unfolding s'
      by (intro processNext_inv) (auto simp: anim_inv_def remove_nth_def)
  next
    case (LifetimeTimer i)
    with assms ev t show ?thesis
      by (auto simp: anim_step_def anim_inv_def remove_bubble_def Let_def
          split: if_splits intro: order_trans [OF length_filter_le])
  qed
qed

lemma anim_run_inv: "anim_inv s \<Longrightarrow> anim_run evs s = Some s' \<Longrightarrow> anim_inv s'"
proof (induction evs arbitrary: s)
  case Nil
  then show ?case by simp
next
  case (Cons ev evs)
  then show ?case by (auto split: option.splits dest: anim_step_inv)
qed

lemma anim_inv_initial: "anim_inv initial_anim"
  by (simp add: anim_inv_def initial_anim_def)

lemmas anim_eval = anim_step_def on_message_def processMessageQueue_def processNext_def
  addBubble_def remove_bubble_def limit_bubbles_def Let_def initial_anim_def truthy_str_def
  truthy_num_def or_str_def remove_nth_def QUEUE_DELAY_def NEXT_DELAY_def MAX_BUBBLES_def
  BUBBLE_LIFETIME_def sample_draws_def make_bubble_def

text \<open>
  C4.  After any sequence of messages, drain steps and bubble expiries at most
  \<open>MAX_BUBBLES\<close> = 12 bubbles are displayed.  \<open>addBubble\<close> below the cap appends the new
  bubble; at the cap it drops exactly the oldest displayed bubble and appends the new one,
  so the list keeps the 12 most recent in insertion order.
\<close>

theorem bubbles_capped:
  "(anim_run evs initial_anim = Some s \<longrightarrow> length (bubbles s) \<le> MAX_BUBBLES) \<and>
   MAX_BUBBLES = 12 \<and>
   (length (bubbles s0) < MAX_BUBBLES \<longrightarrow>
      (\<exists>b. b_message b = msg \<and> bubbles (addBubble now d msg et s0) = bubbles s0 @ [b])) \<and>
   (length (bubbles s0) = MAX_BUBBLES \<longrightarrow>
      (\<exists>b. b_message b = msg \<and> bubbles (addBubble now d msg et s0) = tl (bubbles s0) @ [b]))"
proof (intro conjI impI)
  assume "anim_run evs initial_anim = Some s"
  from anim_run_inv [OF anim_inv_initial this] show "length (bubbles s) \<le> MAX_BUBBLES"
    by (simp add: anim_inv_def)
next
  show "MAX_BUBBLES = 12" by (simp add: MAX_BUBBLES_def)
next
  assume "length (bubbles s0) < MAX_BUBBLES"
  then show "\<exists>b. b_message b = msg \<and> bubbles (addBubble now d msg et s0) = bubbles s0 @ [b]"
    by (simp add: addBubble_def Let_def limit_bubbles_below make_bubble_def)
next
  assume "length (bubbles s0) = MAX_BUBBLES"
  then show "\<exists>b. b_message b = msg \<and> bubbles (addBubble now d msg et s0) = tl (bubbles s0) @ [b]"
    by (simp add: addBubble_def Let_def limit_bubbles_full make_bubble_def)
qed

lemma sample_thirteen_run:
  "\<exists>s. anim_run sample_thirteen initial_anim = Some s \<and>
        map b_message (bubbles s) =
          [''b'', ''c'', ''d'', ''e'', ''f'', ''g'', ''h'', ''i'', ''j'', ''k'', ''l'', ''m'']"
  unfolding sample_thirteen_def by (simp add: anim_eval)

theorem bubbles_capped_witness:
  "\<exists>s. anim_run sample_thirteen initial_anim = Some s \<and>
        length (bubbles s) = MAX_BUBBLES \<and>
        map b_message (bubbles s) =
          [''b'', ''c'', ''d'', ''e'', ''f'', ''g'', ''h'', ''i'', ''j'', ''k'', ''l'', ''m''] \<and>
        map b_message (bubbles (addBubble 1350 sample_draws ''n'' ''checkin'' s)) =
          [''c'', ''d'', ''e'', ''f'', ''g'', ''h'', ''i'', ''j'', ''k'', ''l'', ''m'', ''n'']"
proof -
  from sample_thirteen_run obtain s where run: "anim_run sample_thirteen initial_anim = Some s"
    and msgs: "map b_message (bubbles s) =
          [''b'', ''c'', ''d'', ''e'', ''f'', ''g'', ''h'', ''i'', ''j'', ''k'', ''l'', ''m'']"
    by auto
  from msgs have "length (map b_message (bubbles s)) = 12" by simp
  then have len: "length (bubbles s) = MAX_BUBBLES" by (simp add: MAX_BUBBLES_def)
  from bubbles_capped [of sample_thirteen s s "''n''" 1350 sample_draws "''checkin''"] len
  obtain b where b: "b_message b = ''n''"
    and after: "bubbles (addBubble 1350 sample_draws ''n'' ''checkin'' s) = tl (bubbles s) @ [b]"
    by blast
  have "map b_message (tl (bubbles s)) = tl (map b_message (bubbles s))" by (simp add: map_tl)
  with msgs b after have
    "map b_message (bubbles (addBubble 1350 sample_draws ''n'' ''checkin'' s)) =
          [''c'', ''d'', ''e'', ''f'', ''g'', ''h'', ''i'', ''j'', ''k'', ''l'', ''m'', ''n'']"
    by simp
  with run len msgs show ?thesis by (intro exI [of _ s]) simp
qed

lemma subseq_drop_left: "subseq (drop n xs) xs"
proof -
  have "subseq (drop n xs) (take n xs @ drop n xs)" by (rule subseq_drop_many) simp
  then show ?thesis by simp
qed

lemma limit_bubbles_drop:
  "limit_bubbles prev b = drop (Suc (length prev) - MAX_BUBBLES) (prev @ [b])"
  by (simp add: limit_bubbles_def Let_def)

lemma anim_step_display:
  assumes "anim_step ev s = Some s'"
  shows "(presented s' = presented s \<and> bubbles s' = bubbles s \<and> completed s' = completed s) \<or>
     (presented s' = presented s \<and>
      (\<exists>ident. bubbles s' = filter (\<lambda>b. b_id b \<noteq> ident) (bubbles s) \<and>
                completed s' = completed s @ [ident])) \<or>
     (\<exists>m rest. messageQueue s = m # rest \<and> messageQueue s' = rest \<and>
        presented s' = presented s @ [(fst ev, m)] \<and>
        bubbles s' = limit_bubbles (bubbles s)
            (make_bubble (fst ev) (fst (snd ev)) (q_message m) (q_eventType m)) \<and>
        completed s' = completed s)"
proof -
  obtain now d a where ev: "ev = (now, d, a)" by (cases ev) auto
  show ?thesis
  proof (cases a)
    case (Message m)
    with assms ev show ?thesis
      by (auto simp: anim_step_def on_message_def Let_def split: if_splits)
  next
    case (QueueTimer i)
    with assms ev show ?thesis
      by (auto simp: anim_step_def processMessageQueue_def processNext_def addBubble_def Let_def
          split: if_splits list.splits)
  next
    case (NextTimer i)
    with assms ev show ?thesis
      by (auto simp: anim_step_def processNext_def addBubble_def Let_def
          split: if_splits list.splits)
  next
    case (LifetimeTimer i)
    with assms ev show ?thesis
      by (auto simp: anim_step_def remove_bubble_def Let_def split: if_splits)
  qed
qed

lemma make_bubble_content:
  "bubble_content (make_bubble now d (q_message m) (q_eventType m)) = queued_content m"
  by (simp add: bubble_content_def queued_content_def make_bubble_def)

lemma display_inv_present:
  assumes "display_inv s" and "length (presented s) = n"
    and "bubble_content b = queued_content m"
  shows "subseq (map bubble_content (limit_bubbles (bubbles s) b))
           (map (queued_content \<circ> snd) (presented s @ [(t, m)]))"
    and "completed s \<noteq> [] \<or>
         map bubble_content (limit_bubbles (bubbles s) b) =
           drop (length (presented s @ [(t, m)]) - MAX_BUBBLES)
             (map (queued_content \<circ> snd) (presented s @ [(t, m)]))"
proof -
  let ?B = "map bubble_content (bubbles s)" and ?P = "map (queued_content \<circ> snd) (presented s)"
  let ?k = "queued_content m"
  have eq: "map bubble_content (limit_bubbles (bubbles s) b) =
      drop (Suc (length ?B) - MAX_BUBBLES) (?B @ [?k])"
    by (simp add: limit_bubbles_drop drop_map [symmetric] assms(3))
  from assms(1) have sub: "subseq ?B ?P" by (simp add: display_inv_def)
  then have "subseq (?B @ [?k]) (?P @ [?k])" by (rule list_emb_append_mono) simp
  then have "subseq (drop (Suc (length ?B) - MAX_BUBBLES) (?B @ [?k])) (?P @ [?k])"
    using subseq_drop_left subseq_order.order_trans by blast
  then show "subseq (map bubble_content (limit_bubbles (bubbles s) b))
           (map (queued_content \<circ> snd) (presented s @ [(t, m)]))"
    by (simp add: eq)
  show "completed s \<noteq> [] \<or>
         map bubble_content (limit_bubbles (bubbles s) b) =
           drop (length (presented s @ [(t, m)]) - MAX_BUBBLES)
             (map (queued_content \<circ> snd) (presented s @ [(t, m)]))"
  proof (cases "completed s = []")
    case False
    then show ?thesis by simp
  next
    case True
    with assms(1) have B: "?B = drop (length (presented s) - MAX_BUBBLES) ?P"
      by (simp add: display_inv_def)
    have "drop (Suc (length ?B) - MAX_BUBBLES) (?B @ [?k]) =
          drop (Suc (length ?P) - MAX_BUBBLES) (?P @ [?k])"
    proof (cases "length ?P < MAX_BUBBLES")
      case True
      then show ?thesis using B by simp
    next
      case False
      then have len: "length ?B = MAX_BUBBLES" by (subst B) (simp add: MAX_BUBBLES_def)
      have "drop (Suc (length ?B) - MAX_BUBBLES) (?B @ [?k]) = drop 1 ?B @ [?k]"
        using len by (simp add: MAX_BUBBLES_def)
      also have "drop 1 ?B = drop (Suc (length ?P) - MAX_BUBBLES) ?P"
      proof -
        from False have ar: "Suc (length (presented s) - MAX_BUBBLES) = Suc (length ?P) - MAX_BUBBLES"
          by (simp add: MAX_BUBBLES_def)
        have "drop 1 ?B = drop (Suc (length (presented s) - MAX_BUBBLES)) ?P"
          by (subst B) simp
        then show ?thesis by (simp only: ar)
      qed
      also have "\<dots> @ [?k] = drop (Suc (length ?P) - MAX_BUBBLES) (?P @ [?k])"
        using False by (simp add: MAX_BUBBLES_def)
      finally show ?thesis .
    qed
    then show ?thesis by (simp add: eq)
  qed
qed

lemma anim_step_display_inv:
  assumes "display_inv s" and "anim_step ev s = Some s'"
  shows "display_inv s'"
  using anim_step_display [OF assms(2)]
proof (elim disjE exE conjE)
  assume "presented s' = presented s" "bubbles s' = bubbles s" "completed s' = completed s"
  with assms(1) show ?thesis by (simp add: display_inv_def)
next
  fix ident
  assume p: "presented s' = presented s"
    and b: "bubbles s' = filter (\<lambda>b. b_id b \<noteq> ident) (bubbles s)"
    and c: "completed s' = completed s @ [ident]"
  have "subseq (map bubble_content (filter (\<lambda>b. b_id b \<noteq> ident) (bubbles s)))
          (map bubble_content (bubbles s))"
    by (rule subseq_map) simp
  with assms(1) have "subseq (map bubble_content (bubbles s'))
      (map (queued_content \<circ> snd) (presented s'))"
    unfolding b p display_inv_def using subseq_order.order_trans by blast
  with c show ?thesis by (simp add: display_inv_def)
next
  fix m rest
  assume p: "presented s' = presented s @ [(fst ev, m)]"
    and bb: "bubbles s' = limit_bubbles (bubbles s)
            (make_bubble (fst ev) (fst (snd ev)) (q_message m) (q_eventType m))"
    and c: "completed s' = completed s"
  from display_inv_present [OF assms(1) refl make_bubble_content, of "fst ev" "fst (snd ev)" m "fst ev"]
  show ?thesis
    unfolding display_inv_def p bb c by simp
qed

lemma anim_run_display_inv:
  "display_inv s \<Longrightarrow> anim_run evs s = Some s' \<Longrightarrow> display_inv s'"
proof (induction evs arbitrary: s)
  case Nil
  then show ?case by simp
next
  case (Cons ev evs)
  then show ?case by (auto split: option.splits dest: anim_step_display_inv)
qed

lemma display_inv_initial: "display_inv initial_anim"
  by (simp add: display_inv_def initial_anim_def)

text \<open>
  C6.  Messages are presented in the order in which they were pushed on the queue: at
  every moment the messages presented so far, followed by the queue, are exactly the
  messages pushed.  A step presents at most one message, the head of the queue, and then
  it adds the bubble made from that message (its text and kind) to the displayed
  bubbles; any other step adds no bubble.  So the displayed bubbles are always taken, in
  arrival order, from the messages pushed, and while no bubble has expired they are
  exactly the last \<open>MAX_BUBBLES\<close> messages presented.  Two successive presentations
  are at least the inter-item delay of 100 ms apart, and as long as the queue is not
  empty a timer is pending that will drain it.
\<close>

theorem queue_fifo:
  assumes "anim_run evs initial_anim = Some s"
  shows "map snd (presented s) @ messageQueue s = enqueued s \<and>
    spaced NEXT_DELAY (map fst (presented s)) \<and> NEXT_DELAY = 100 \<and>
    (messageQueue s = [] \<or> queueTimers s \<noteq> [] \<or> nextTimers s \<noteq> []) \<and>
    subseq (map bubble_content (bubbles s)) (map queued_content (enqueued s)) \<and>
    (completed s = [] \<longrightarrow>
       map bubble_content (bubbles s) =
         drop (length (presented s) - MAX_BUBBLES) (map (queued_content \<circ> snd) (presented s))) \<and>
    (\<forall>ev s'. anim_step ev s = Some s' \<longrightarrow>
       (presented s' = presented s \<and> subseq (bubbles s') (bubbles s)) \<or>
       (\<exists>m rest. messageQueue s = m # rest \<and> messageQueue s' = rest \<and>
                  presented s' = presented s @ [(fst ev, m)] \<and>
                  bubbles s' = limit_bubbles (bubbles s)
                    (make_bubble (fst ev) (fst (snd ev)) (q_message m) (q_eventType m))))"
proof -
  from anim_run_inv [OF anim_inv_initial assms] have inv: "anim_inv s" .
  from anim_run_display_inv [OF display_inv_initial assms] have dis: "display_inv s" .
  from inv have fifo: "map snd (presented s) @ messageQueue s = enqueued s"
    by (simp add: anim_inv_def)
  have "map queued_content (enqueued s) =
      map (queued_content \<circ> snd) (presented s) @ map queued_content (messageQueue s)"
    by (simp add: fifo [symmetric])
  moreover from dis have "subseq (map bubble_content (bubbles s))
      (map (queued_content \<circ> snd) (presented s))"
    by (simp add: display_inv_def)
  ultimately have sub: "subseq (map bubble_content (bubbles s)) (map queued_content (enqueued s))"
    by (simp add: subseq_rev_drop_many)
  from dis have exact: "completed s = [] \<longrightarrow>
       map bubble_content (bubbles s) =
         drop (length (presented s) - MAX_BUBBLES) (map (queued_content \<circ> snd) (presented s))"
    by (auto simp: display_inv_def)
  have step: "\<forall>ev s'. anim_step ev s = Some s' \<longrightarrow>
       (presented s' = presented s \<and> subseq (bubbles s') (bubbles s)) \<or>
       (\<exists>m rest. messageQueue s = m # rest \<and> messageQueue s' = rest \<and>
                  presented s' = presented s @ [(fst ev, m)] \<and>
                  bubbles s' = limit_bubbles (bubbles s)
                    (make_bubble (fst ev) (fst (snd ev)) (q_message m) (q_eventType m)))"
  proof (intro allI impI)
    fix ev s'
    assume "anim_step ev s = Some s'"
    from anim_step_display [OF this]
    show "(presented s' = presented s \<and> subseq (bubbles s') (bubbles s)) \<or>
       (\<exists>m rest. messageQueue s = m # rest \<and> messageQueue s' = rest \<and>
                  presented s' = presented s @ [(fst ev, m)] \<and>
                  bubbles s' = limit_bubbles (bubbles s)
                    (make_bubble (fst ev) (fst (snd ev)) (q_message m) (q_eventType m)))"
      by (elim disjE exE conjE) auto
  qed
  from inv have rest: "spaced NEXT_DELAY (map fst (presented s))"
    "messageQueue s = [] \<or> queueTimers s \<noteq> [] \<or> nextTimers s \<noteq> []"
    by (simp_all add: anim_inv_def)
  have nd: "NEXT_DELAY = 100" by (simp add: NEXT_DELAY_def)
  from fifo rest nd sub exact step show ?thesis by (intro conjI)
qed

lemma sample_burst_run:
  "\<exists>s. anim_run sample_burst initial_anim = Some s \<and>
        map (q_message \<circ> snd) (presented s) = [''a'', ''b''] \<and>
        map fst (presented s) = [50, 150] \<and>
        map b_message (bubbles s) = [''a'', ''b''] \<and>
        map q_message (messageQueue s) = [''c''] \<and>
        map q_message (enqueued s) = [''a'', ''b'', ''c''] \<and>
        completed s = [] \<and>
        queueTimers s = [70] \<and> nextTimers s = [250]"
  unfolding sample_burst_def by (simp add: anim_eval)

theorem queue_fifo_witness:
  "\<exists>s. anim_run sample_burst initial_anim = Some s \<and>
        map (q_message \<circ> snd) (presented s) = [''a'', ''b''] \<and>
        map fst (presented s) = [50, 150] \<and>
        map b_message (bubbles s) = [''a'', ''b''] \<and>
        map q_message (messageQueue s) = [''c''] \<and>
        map snd (presented s) @ messageQueue s = enqueued s \<and>
        spaced NEXT_DELAY (map fst (presented s)) \<and>
        map bubble_content (bubbles s) =
          drop (length (presented s) - MAX_BUBBLES) (map (queued_content \<circ> snd) (presented s)) \<and>
        nextTimers s = [250]"
proof -
  from sample_burst_run obtain s where run: "anim_run sample_burst initial_anim = Some s"
    and rest: "map (q_message \<circ> snd) (presented s) = [''a'', ''b'']"
      "map fst (presented s) = [50, 150]" "map b_message (bubbles s) = [''a'', ''b'']"
      "map q_message (messageQueue s) = [''c'']"
      "nextTimers s = [250]"
    and c: "completed s = []"
    by auto
  from queue_fifo [OF run] c have "map snd (presented s) @ messageQueue s = enqueued s"
    and "spaced NEXT_DELAY (map fst (presented s))"
    and "map bubble_content (bubbles s) =
          drop (length (presented s) - MAX_BUBBLES) (map (queued_content \<circ> snd) (presented s))"
    by simp_all
  with run rest show ?thesis by (intro exI [of _ s]) simp
qed

section \<open>Properties of the ABC parser\<close>











lemma read_L_not_L: "\<not> starts_with ''L:'' line \<Longrightarrow> read_L line h = h"
  by (simp add: read_L_def)







lemma clamp_range:
  "Math_max (Fin (8 / 100)) (Math_min (Fin (15 / 10)) x) = NaN \<or>
   bounded_duration (Math_max (Fin (8 / 100)) (Math_min (Fin (15 / 10)) x))"
  by (cases x) (auto simp: bounded_duration_def)

lemma slashes_range:
  "tok \<noteq> [] \<Longrightarrow> bounded_duration (js_div (Fin (15 / 100)) (num (length tok)))"
proof -
  assume "tok \<noteq> []"
  then have "1 \<le> (of_nat (length tok) :: rat)" by (cases tok) simp_all
  then have "(15 / 100) / (of_nat (length tok) :: rat) \<le> 15 / 100"
    and "0 < (15 / 100) / (of_nat (length tok) :: rat)"
    using \<open>tok \<noteq> []\<close> by (simp_all add: divide_le_eq)
  with \<open>tok \<noteq> []\<close> show ?thesis by (simp add: num_def bounded_duration_def)
qed

text \<open>
  Every duration the parser computes is a positive number of at most 1.5 seconds, or NaN:
  the clamp bounds every number and every infinity, and lets NaN through.
\<close>

lemma durationFromToken_range:
  "durationFromToken h tok = NaN \<or> bounded_duration (durationFromToken h tok)"
proof (cases "tok = []")
  case True
  then show ?thesis by (simp add: durationFromToken_def bounded_duration_def)
next
  case False
  show ?thesis
  proof (cases "tok = ''/''")
    case True
    then show ?thesis by (simp add: durationFromToken_def bounded_duration_def)
  next
    case ns: False
    show ?thesis
    proof (cases "rx_full (rx_rep 1 None is_slash) tok \<noteq> None")
      case True
      with False ns slashes_range [OF False] show ?thesis
        by (simp add: durationFromToken_def)
    next
      case nsl: False
      show ?thesis
      proof (cases "rx_full rx_num_den tok")
        case None
        with False ns nsl show ?thesis by (simp add: durationFromToken_def bounded_duration_def)
      next
        case (Some nd)
        obtain ns' ds where nd: "nd = (ns', ds)" by (cases nd)
        from False ns nsl Some nd show ?thesis
          using clamp_range by (simp add: durationFromToken_def Let_def)
      qed
    qed
  qed
qed

text \<open>
  C9.  The claim is that every note of \<open>parseAbcSimple\<close> has a positive duration of at
  most 1.5 seconds.  On the tune \<open>C0/0\<close> the duration token is \<open>0/0\<close>, the fraction is
  0 / 0 = NaN, and \<open>Math.max(0.08, Math.min(1.5, NaN))\<close> is NaN: the one note has no
  bounded duration.
\<close>

theorem parseAbcSimple_nan_duration:
  "parseAbcSimple ''C0/0'' = [\<lparr>midi = 60, seconds = NaN\<rparr>] \<and>
   \<not> bounded_duration (seconds (hd (parseAbcSimple ''C0/0'')))"
proof -
  have p: "parseAbcSimple ''C0/0'' = [\<lparr>midi = 60, seconds = NaN\<rparr>]" by code_simp
  then show ?thesis by (simp add: bounded_duration_def)
qed

section \<open>Properties of the note sequencer and the audio calls\<close>

lemmas cmd_defs = seq_def try_catch_def assign_def skip_def throw_def emit_def deref_def

lemma seq_ok: "fst (c1 s) = None \<Longrightarrow> seq c1 c2 s = c2 (snd (c1 s))"
  by (cases "c1 s") (simp add: seq_def)

lemma assign_simps [simp]: "fst (assign f s) = None" "snd (assign f s) = f s"
  by (simp_all add: assign_def)

lemma emit_simps [simp]: "fst (emit ev s) = None"
  "snd (emit ev s) = s\<lparr>audioLog := audioLog s @ [ev]\<rparr>"
  by (simp_all add: emit_def assign_def)

lemma map_filter_append: "List.map_filter f (xs @ ys) = List.map_filter f xs @ List.map_filter f ys"
  by (simp add: List.map_filter_def)

lemma map_filter_single: "List.map_filter f [x] = (case f x of None \<Rightarrow> [] | Some y \<Rightarrow> [y])"
  by (simp add: List.map_filter_def split: option.splits)

lemma resume_if_suspended_eq:
  "resume_if_suspended env ctx s =
     (None, if ctx = Some Suspended
            then (if resume_throws env then s\<lparr>audioLog := audioLog s @ [Resume]\<rparr>
                  else s\<lparr>audioLog := audioLog s @ [Resume], audioContext := Some Running\<rparr>)
            else s)"
  by (simp add: resume_if_suspended_def resume_def cmd_defs)

lemma resume_if_suspended_simps [simp]:
  "fst (resume_if_suspended env ctx s) = None"
  "notes (snd (resume_if_suspended env ctx s)) = notes s"
  "cursor (snd (resume_if_suspended env ctx s)) = cursor s"
  "piano (snd (resume_if_suspended env ctx s)) = piano s"
  "fx_complete (snd (resume_if_suspended env ctx s)) = fx_complete s"
  "List.map_filter logged (audioLog (snd (resume_if_suspended env ctx s))) = List.map_filter logged (audioLog s)"
  "List.map_filter sounded (audioLog (snd (resume_if_suspended env ctx s))) = List.map_filter sounded (audioLog s)"
  by (simp_all add: resume_if_suspended_eq fx_complete_def map_filter_append map_filter_single)

lemma resume_if_suspended_ctx:
  "audioContext s = ctx \<Longrightarrow> (audioContext (snd (resume_if_suspended env ctx s)) = None) = (ctx = None)"
  by (auto simp: resume_if_suspended_eq)

lemma emit_eq: "emit ev s = (None, s\<lparr>audioLog := audioLog s @ [ev]\<rparr>)"
  by (simp add: emit_def assign_def)

lemma ensureFxChain_complete: "fx_complete s \<Longrightarrow> ensureFxChain ctx s = (None, s)"
  by (auto simp: ensureFxChain_def fx_complete_def cmd_defs)

lemma ensureFxChain_Some:
  "ensureFxChain (Some c) s =
     (None, s\<lparr>masterGain := True, dryGain := True,
              wetGain := (case wetGain s of None \<Rightarrow> Some 0 | Some w \<Rightarrow> Some w),
              convolver := True\<rparr>)"
  by (cases "wetGain s") (simp_all add: ensureFxChain_def cmd_defs)

lemma ensureFxChain_None:
  "\<not> fx_complete s \<Longrightarrow> fst (ensureFxChain None s) = Some TypeError"
  by (auto simp: ensureFxChain_def fx_complete_def cmd_defs)

lemma ensureFxChain_ok:
  "fst (ensureFxChain ctx s) = None \<Longrightarrow> fx_complete (snd (ensureFxChain ctx s))"
proof (cases ctx)
  case None
  then show "fst (ensureFxChain ctx s) = None \<Longrightarrow> ?thesis"
    using ensureFxChain_None [of s] ensureFxChain_complete [of s None] by (cases "fx_complete s") auto
next
  case (Some c)
  then show ?thesis by (cases "wetGain s") (simp_all add: ensureFxChain_Some fx_complete_def)
qed

lemma ensureFxChain_frame:
  "notes (snd (ensureFxChain ctx s)) = notes s"
  "cursor (snd (ensureFxChain ctx s)) = cursor s"
  "audioContext (snd (ensureFxChain ctx s)) = audioContext s"
  "audioLog (snd (ensureFxChain ctx s)) = audioLog s"
  "piano (snd (ensureFxChain ctx s)) = piano s"
  by (cases ctx; auto simp: ensureFxChain_def cmd_defs)+

lemma applyFx_simps [simp]:
  "fst (applyFxSettingsFromStorage env s) = None"
  "notes (snd (applyFxSettingsFromStorage env s)) = notes s"
  "cursor (snd (applyFxSettingsFromStorage env s)) = cursor s"
  "piano (snd (applyFxSettingsFromStorage env s)) = piano s"
  "audioContext (snd (applyFxSettingsFromStorage env s)) = audioContext s"
  "audioLog (snd (applyFxSettingsFromStorage env s)) = audioLog s"
  "fx_complete (snd (applyFxSettingsFromStorage env s)) = fx_complete s"
  by (simp_all add: applyFxSettingsFromStorage_def fx_complete_def split: option.splits)

lemma playTone_eq:
  "playTone env m d s =
     (None,
      case (case audioContext s of Some c \<Rightarrow> Some c | None \<Rightarrow> getOrCreateAudioContext env) of
        None \<Rightarrow> s
      | Some c \<Rightarrow>
          (let s2 = snd (resume_if_suspended env (Some c) (s\<lparr>audioContext := Some c\<rparr>))
           in s2\<lparr>audioLog := audioLog s2 @
                 [Tone m (Math_max (Fin (1 / 10)) (Math_min (Fin 1) (js_or d (Fin (3 / 10)))))]\<rparr>))"
  by (cases "audioContext s"; cases "getOrCreateAudioContext env")
     (simp_all add: playTone_def Let_def seq_ok deref_def skip_def emit_eq)

lemma playTone_simps [simp]:
  "fst (playTone env m d s) = None"
  "notes (snd (playTone env m d s)) = notes s"
  "cursor (snd (playTone env m d s)) = cursor s"
  "piano (snd (playTone env m d s)) = piano s"
  "fx_complete (snd (playTone env m d s)) = fx_complete s"
  "List.map_filter logged (audioLog (snd (playTone env m d s))) = List.map_filter logged (audioLog s)"
  by (simp_all add: playTone_eq Let_def map_filter_append map_filter_single fx_complete_def
      resume_if_suspended_eq split: option.splits)

lemma playTone_sounded:
  "audioContext s \<noteq> None \<Longrightarrow>
     audioContext (snd (playTone env m d s)) \<noteq> None \<and>
     List.map_filter sounded (audioLog (snd (playTone env m d s))) =
       List.map_filter sounded (audioLog s) @ [m]"
  by (auto simp: playTone_eq Let_def map_filter_append map_filter_single resume_if_suspended_eq)


lemma fx_complete_update [simp]:
  "fx_complete (s\<lparr>cursor := c\<rparr>) = fx_complete s"
  "fx_complete (s\<lparr>audioContext := a\<rparr>) = fx_complete s"
  "fx_complete (s\<lparr>audioLog := l\<rparr>) = fx_complete s"
  "fx_complete (s\<lparr>notes := ns\<rparr>) = fx_complete s"
  "fx_complete (s\<lparr>piano := p\<rparr>) = fx_complete s"
  "fx_complete (s\<lparr>currentSong := f\<rparr>) = fx_complete s"
  "fx_complete (s\<lparr>volume := v\<rparr>) = fx_complete s"
  by (simp_all add: fx_complete_def)

lemma play_piano_eq:
  "play_piano env (Some c) m secs s =
     (if piano_throws env then (Some PianoFailed, s)
      else (None, s\<lparr>audioLog := audioLog s @
              [PianoNote m (Math_max (Fin (1 / 10)) (js_or secs (Fin (3 / 10))))]\<rparr>))"
  by (simp add: play_piano_def cmd_defs)

lemma sound_note_cases:
  "sound_note env ctx m secs s =
     (if piano s \<and> ctx \<noteq> None \<and> \<not> piano_throws env
      then (None, s\<lparr>audioLog := audioLog s @
              [PianoNote m (Math_max (Fin (1 / 10)) (js_or secs (Fin (3 / 10))))]\<rparr>)
      else playTone env m (js_or secs (Fin (3 / 10))) s)"
  by (cases ctx) (simp_all add: sound_note_def try_catch_def play_piano_eq)

lemma sound_note_simps [simp]:
  "fst (sound_note env ctx m secs s) = None"
  "notes (snd (sound_note env ctx m secs s)) = notes s"
  "cursor (snd (sound_note env ctx m secs s)) = cursor s"
  "piano (snd (sound_note env ctx m secs s)) = piano s"
  "fx_complete (snd (sound_note env ctx m secs s)) = fx_complete s"
  "List.map_filter logged (audioLog (snd (sound_note env ctx m secs s))) = List.map_filter logged (audioLog s)"
  by (simp_all add: sound_note_cases map_filter_append map_filter_single)

lemma sound_note_sounded:
  "audioContext s \<noteq> None \<Longrightarrow>
     audioContext (snd (sound_note env ctx m secs s)) \<noteq> None \<and>
     List.map_filter sounded (audioLog (snd (sound_note env ctx m secs s))) =
       List.map_filter sounded (audioLog s) @ [m]"
  using playTone_sounded [of s env m "js_or secs (Fin (3 / 10))"]
  by (auto simp: sound_note_cases map_filter_append map_filter_single)

lemma playNextNote_empty: "notes s = [] \<Longrightarrow> playNextNote env s = (None, s)"
  by (simp add: playNextNote_def skip_def)

lemma playNextNote_eq:
  assumes "notes s \<noteq> []" and "fx_complete s"
  shows "playNextNote env s =
    (let idx = selected s; ctx = acquired env s;
         s1 = s\<lparr>cursor := (idx + 1) mod length (notes s), audioContext := ctx\<rparr>;
         s2 = snd (resume_if_suspended env ctx s1);
         s3 = snd (applyFxSettingsFromStorage env s2);
         s4 = snd (sound_note env ctx (midi (notes s ! idx)) (seconds (notes s ! idx)) s3)
     in (None, s4\<lparr>audioLog := audioLog s4 @
                 [LogPlayNote idx (midi (notes s ! idx)) (seconds (notes s ! idx))]\<rparr>))"
  using assms
  by (simp add: playNextNote_def Let_def seq_ok ensureFxChain_complete emit_eq selected_def
      acquired_def)

lemma playNextNote_step:
  assumes "notes s \<noteq> []" and "fx_complete s"
  shows "fst (playNextNote env s) = None"
    and "notes (snd (playNextNote env s)) = notes s"
    and "cursor (snd (playNextNote env s)) = (cursor s + 1) mod length (notes s)"
    and "fx_complete (snd (playNextNote env s))"
    and "List.map_filter logged (audioLog (snd (playNextNote env s))) =
           List.map_filter logged (audioLog s) @ [(selected s, notes s ! selected s)]"
  using assms
  by (simp_all add: playNextNote_eq Let_def map_filter_append map_filter_single selected_def
      mod_Suc_eq)

lemma playNextNote_sounded:
  assumes "notes s \<noteq> []" and "fx_complete s" and "audioContext s \<noteq> None"
  shows "audioContext (snd (playNextNote env s)) \<noteq> None"
    and "List.map_filter sounded (audioLog (snd (playNextNote env s))) =
           List.map_filter sounded (audioLog s) @ [midi (notes s ! selected s)]"
proof -
  let ?idx = "selected s" and ?ctx = "acquired env s"
  let ?s1 = "s\<lparr>cursor := (?idx + 1) mod length (notes s), audioContext := ?ctx\<rparr>"
  let ?s3 = "snd (applyFxSettingsFromStorage env (snd (resume_if_suspended env ?ctx ?s1)))"
  from assms(3) have c: "?ctx \<noteq> None" by (auto simp: acquired_def)
  then have "audioContext (snd (resume_if_suspended env ?ctx ?s1)) \<noteq> None"
    using resume_if_suspended_ctx [of ?s1 ?ctx env] by simp
  then have a3: "audioContext ?s3 \<noteq> None" by simp
  have l3: "List.map_filter sounded (audioLog ?s3) = List.map_filter sounded (audioLog s)" by simp
  from sound_note_sounded [OF a3, of env ?ctx "midi (notes s ! ?idx)" "seconds (notes s ! ?idx)"] l3
  show "audioContext (snd (playNextNote env s)) \<noteq> None"
    and "List.map_filter sounded (audioLog (snd (playNextNote env s))) =
           List.map_filter sounded (audioLog s) @ [midi (notes s ! selected s)]"
    using assms(1,2)
    by (simp_all add: playNextNote_eq Let_def map_filter_append map_filter_single)
qed

lemma try_piano_eq:
  "try_catch
     (\<lambda>s. if \<not> piano s
           then (if piano_loads then assign (\<lambda>s. s\<lparr>piano := True\<rparr>) s else throw PianoFailed s)
           else skip s)
     (assign (\<lambda>s. s\<lparr>piano := False\<rparr>)) s =
   (None, if piano s then s else s\<lparr>piano := piano_loads\<rparr>)"
  by (simp add: cmd_defs)

lemma init_body_throw:
  "fst (ensureFxChain (getOrCreateAudioContext env) (s\<lparr>audioContext := getOrCreateAudioContext env\<rparr>)) \<noteq> None \<Longrightarrow>
     fst (init_body env pl abc f s) \<noteq> None"
  by (cases "ensureFxChain (getOrCreateAudioContext env) (s\<lparr>audioContext := getOrCreateAudioContext env\<rparr>)")
     (auto simp: init_body_def seq_def assign_def)

lemma init_body_ok:
  assumes "fst (ensureFxChain (getOrCreateAudioContext env) (s\<lparr>audioContext := getOrCreateAudioContext env\<rparr>)) = None"
  shows "init_body env pl abc f s =
     (let s2 = snd (ensureFxChain (getOrCreateAudioContext env) (s\<lparr>audioContext := getOrCreateAudioContext env\<rparr>));
          s3 = snd (applyFxSettingsFromStorage env s2);
          s4 = (if piano s3 then s3 else s3\<lparr>piano := pl\<rparr>)
      in case abc of
           Inl e \<Rightarrow> (Some e, s4)
         | Inr text \<Rightarrow> (None, s4\<lparr>notes := parseAbcToNotes text, cursor := 0, currentSong := Some f\<rparr>))"
  using assms
  by (cases abc)
     (simp_all add: init_body_def Let_def seq_ok try_piano_eq throw_def assign_def
       ensureFxChain_frame)

lemma parseAbcToNotes_eq: "parseAbcToNotes text = parseAbcSimple text"
  by (simp add: parseAbcToNotes_def Let_def)

lemma init_cursor: "cursor (snd (init env pl abc f s)) = 0"
proof (cases "fst (ensureFxChain (getOrCreateAudioContext env) (s\<lparr>audioContext := getOrCreateAudioContext env\<rparr>)) = None")
  case True
  then show ?thesis
    by (cases abc) (simp_all add: init_def init_body_ok Let_def)
next
  case False
  from init_body_throw [OF this, of pl abc f] show ?thesis
    by (cases "init_body env pl abc f s") (auto simp: init_def)
qed

lemma init_notes:
  "notes (snd (init env pl abc f s)) = [] \<or>
   (\<exists>text. abc = Inr text \<and> fst (init env pl abc f s) \<and>
            notes (snd (init env pl abc f s)) = parseAbcSimple text \<and>
            fx_complete (snd (init env pl abc f s)))"
proof (cases "fst (ensureFxChain (getOrCreateAudioContext env) (s\<lparr>audioContext := getOrCreateAudioContext env\<rparr>)) = None")
  case True
  from ensureFxChain_ok [OF True] show ?thesis using True
    by (cases abc) (simp_all add: init_def init_body_ok Let_def parseAbcToNotes_eq)
next
  case False
  from init_body_throw [OF this, of pl abc f] show ?thesis
    by (cases "init_body env pl abc f s") (auto simp: init_def)
qed

lemma init_failed_load: "notes (snd (init env pl (Inl e) f s)) = [] \<and> \<not> fst (init env pl (Inl e) f s)"
proof (cases "fst (ensureFxChain (getOrCreateAudioContext env) (s\<lparr>audioContext := getOrCreateAudioContext env\<rparr>)) = None")
  case True
  then show ?thesis by (simp add: init_def init_body_ok Let_def)
next
  case False
  from init_body_throw [OF this, of pl "Inl e" f] show ?thesis
    by (cases "init_body env pl (Inl e) f s") (auto simp: init_def)
qed

lemma init_result: "fst (init env pl abc f s) = (notes (snd (init env pl abc f s)) \<noteq> [])"
  by (cases "init_body env pl abc f s") (auto simp: init_def split: option.splits)



lemma play_calls_empty:
  "notes s = [] \<Longrightarrow> play_calls envs s = (replicate (length envs) None, s)"
  by (induction envs) (simp_all add: playNextNote_empty)

lemma play_calls_cycle:
  assumes "notes s \<noteq> []" and "fx_complete s"
  shows "fst (play_calls envs s) = replicate (length envs) None \<and>
         notes (snd (play_calls envs s)) = notes s \<and>
         cursor (snd (play_calls envs s)) mod length (notes s) =
           (cursor s + length envs) mod length (notes s) \<and>
         (envs \<noteq> [] \<longrightarrow> cursor (snd (play_calls envs s)) < length (notes s)) \<and>
         List.map_filter logged (audioLog (snd (play_calls envs s))) =
           List.map_filter logged (audioLog s) @
           map (\<lambda>k. ((cursor s + k) mod length (notes s), notes s ! ((cursor s + k) mod length (notes s))))
             [0 ..< length envs]"
  using assms
proof (induction envs arbitrary: s)
  case Nil
  then show ?case by simp
next
  case (Cons env envs)
  let ?s1 = "snd (playNextNote env s)"
  note st = playNextNote_step [OF Cons.prems, of env]
  have n1: "notes ?s1 \<noteq> []" using st(2) Cons.prems(1) by simp
  note ih = Cons.IH [OF n1 st(4)]
  have pc: "play_calls (env # envs) s =
      (fst (playNextNote env s) # fst (play_calls envs ?s1), snd (play_calls envs ?s1))"
    by (cases "playNextNote env s"; cases "play_calls envs ?s1") (simp add: case_prod_beta)
  have shift: "map (\<lambda>k. ((cursor s + k) mod length (notes s), notes s ! ((cursor s + k) mod length (notes s))))
             [0 ..< Suc (length envs)] =
     (selected s, notes s ! selected s) #
     map (\<lambda>k. ((cursor ?s1 + k) mod length (notes s), notes s ! ((cursor ?s1 + k) mod length (notes s))))
             [0 ..< length envs]"
    by (simp add: upt_rec [of 0] map_Suc_upt [symmetric] selected_def st(3) mod_simps
        del: upt_Suc)
  have lt: "cursor (snd (play_calls envs ?s1)) < length (notes s)"
  proof (cases envs)
    case Nil
    then show ?thesis using st(3) Cons.prems(1) by simp
  next
    case (Cons a list)
    with ih st(2) show ?thesis by simp
  qed
  have a: "fst (play_calls (env # envs) s) = replicate (length (env # envs)) None"
    using ih st(1) by (simp add: pc del: play_calls.simps)
  have b: "notes (snd (play_calls (env # envs) s)) = notes s"
    using ih st(2) by (simp add: pc del: play_calls.simps)
  have c: "cursor (snd (play_calls (env # envs) s)) mod length (notes s) =
           (cursor s + length (env # envs)) mod length (notes s)"
    using ih st(2,3) by (simp add: pc mod_simps del: play_calls.simps)
  have d: "cursor (snd (play_calls (env # envs) s)) < length (notes s)"
    using lt by (simp add: pc del: play_calls.simps)
  have e: "List.map_filter logged (audioLog (snd (play_calls (env # envs) s))) =
           List.map_filter logged (audioLog s) @
           map (\<lambda>k. ((cursor s + k) mod length (notes s), notes s ! ((cursor s + k) mod length (notes s))))
             [0 ..< length (env # envs)]"
  proof -
    have "List.map_filter logged (audioLog (snd (play_calls (env # envs) s))) =
          List.map_filter logged (audioLog (snd (play_calls envs ?s1)))"
      by (simp add: pc del: play_calls.simps)
    also have "\<dots> = List.map_filter logged (audioLog ?s1) @
           map (\<lambda>k. ((cursor ?s1 + k) mod length (notes s), notes s ! ((cursor ?s1 + k) mod length (notes s))))
             [0 ..< length envs]"
      using ih st(2) by simp
    also have "\<dots> = List.map_filter logged (audioLog s) @
           map (\<lambda>k. ((cursor s + k) mod length (notes s), notes s ! ((cursor s + k) mod length (notes s))))
             [0 ..< Suc (length envs)]"
      by (simp only: st(5) shift append_assoc append_Cons append_Nil)
    finally show ?thesis by (simp del: upt_Suc)
  qed
  from a b c d e show ?case by blast
qed

lemma play_calls_sounded:
  assumes "notes s \<noteq> []" and "fx_complete s" and "audioContext s \<noteq> None"
  shows "List.map_filter sounded (audioLog (snd (play_calls envs s))) =
           List.map_filter sounded (audioLog s) @
           map (\<lambda>k. midi (notes s ! ((cursor s + k) mod length (notes s)))) [0 ..< length envs]"
  using assms
proof (induction envs arbitrary: s)
  case Nil
  then show ?case by simp
next
  case (Cons env envs)
  let ?s1 = "snd (playNextNote env s)"
  note st = playNextNote_step [OF Cons.prems(1,2), of env]
  note so = playNextNote_sounded [OF Cons.prems, of env]
  have n1: "notes ?s1 \<noteq> []" using st(2) Cons.prems(1) by simp
  note ih = Cons.IH [OF n1 st(4) so(1)]
  have pc: "snd (play_calls (env # envs) s) = snd (play_calls envs ?s1)"
    by (cases "playNextNote env s"; cases "play_calls envs ?s1") (simp add: case_prod_beta)
  have shift: "map (\<lambda>k. midi (notes s ! ((cursor s + k) mod length (notes s)))) [0 ..< Suc (length envs)] =
     midi (notes s ! selected s) #
     map (\<lambda>k. midi (notes s ! ((cursor ?s1 + k) mod length (notes s)))) [0 ..< length envs]"
    by (simp add: upt_rec [of 0] map_Suc_upt [symmetric] selected_def st(3) mod_simps
        del: upt_Suc)
  have "List.map_filter sounded (audioLog (snd (play_calls (env # envs) s))) =
        List.map_filter sounded (audioLog ?s1) @
        map (\<lambda>k. midi (notes s ! ((cursor ?s1 + k) mod length (notes s)))) [0 ..< length envs]"
    using ih st(2) by (simp add: pc del: play_calls.simps)
  also have "\<dots> = List.map_filter sounded (audioLog s) @
        map (\<lambda>k. midi (notes s ! ((cursor s + k) mod length (notes s)))) [0 ..< Suc (length envs)]"
    by (simp only: so(2) shift append_assoc append_Cons append_Nil)
  finally show ?case by (simp del: upt_Suc)
qed

lemma init_loaded:
  assumes "init env pl abc f s = (True, s0)"
  shows "notes s0 \<noteq> []" and "cursor s0 = 0" and "fx_complete s0"
proof -
  from assms have f: "fst (init env pl abc f s)" and s0: "s0 = snd (init env pl abc f s)"
    by simp_all
  from f show "notes s0 \<noteq> []" unfolding s0 by (simp add: init_result)
  then show "fx_complete s0" using init_notes [of env pl abc f s] unfolding s0 by auto
  show "cursor s0 = 0" unfolding s0 by (rule init_cursor)
qed



text \<open>
  C1.  After a tune with at least one note has been loaded (\<open>init\<close> returned true), the
  cursor is 0, and for every series of \<open>playNextNote\<close> calls, in whatever browser
  conditions: no call throws, the tune stays the same, the cursor after \<open>k\<close> calls is
  \<open>k mod len(notes)\<close>, and the call number \<open>j + 1\<close> reports note \<open>j mod len(notes)\<close>.
  When the player holds an audio context, each call also starts exactly one sound, with
  the pitch of that note.
\<close>

theorem playNextNote_cycles:
  assumes "init env pl abc f s = (True, s0)"
  shows "notes s0 \<noteq> [] \<and> cursor s0 = 0 \<and>
    fst (play_calls envs s0) = replicate (length envs) None \<and>
    notes (snd (play_calls envs s0)) = notes s0 \<and>
    cursor (snd (play_calls envs s0)) = length envs mod length (notes s0) \<and>
    List.map_filter logged (audioLog (snd (play_calls envs s0))) =
      List.map_filter logged (audioLog s0) @
      map (\<lambda>k. (k mod length (notes s0), notes s0 ! (k mod length (notes s0)))) [0 ..< length envs] \<and>
    (audioContext s0 \<noteq> None \<longrightarrow>
       List.map_filter sounded (audioLog (snd (play_calls envs s0))) =
         List.map_filter sounded (audioLog s0) @
         map (\<lambda>k. midi (notes s0 ! (k mod length (notes s0)))) [0 ..< length envs])"
proof -
  note l = init_loaded [OF assms]
  note c = play_calls_cycle [OF l(1,3), of envs]
  have cur: "cursor (snd (play_calls envs s0)) = length envs mod length (notes s0)"
  proof (cases envs)
    case Nil
    then show ?thesis using l(2) by simp
  next
    case (Cons a list)
    with c have "cursor (snd (play_calls envs s0)) < length (notes s0)" by simp
    with c l(2) show ?thesis by simp
  qed
  have snd': "audioContext s0 \<noteq> None \<Longrightarrow>
       List.map_filter sounded (audioLog (snd (play_calls envs s0))) =
         List.map_filter sounded (audioLog s0) @
         map (\<lambda>k. midi (notes s0 ! (k mod length (notes s0)))) [0 ..< length envs]"
    using play_calls_sounded [OF l(1,3), of envs] l(2) by simp
  from l c cur snd' show ?thesis by simp
qed

lemma parse_CDEF: "parseAbcToNotes ''CDEF'' =
   [\<lparr>midi = 60, seconds = Fin (3 / 10)\<rparr>, \<lparr>midi = 62, seconds = Fin (3 / 10)\<rparr>,
    \<lparr>midi = 64, seconds = Fin (3 / 10)\<rparr>, \<lparr>midi = 65, seconds = Fin (3 / 10)\<rparr>]"
  by code_simp

lemma parse_CD: "parseAbcToNotes ''CD'' =
   [\<lparr>midi = 60, seconds = Fin (3 / 10)\<rparr>, \<lparr>midi = 62, seconds = Fin (3 / 10)\<rparr>]"
  by code_simp

lemma parse_xyz: "parseAbcSimple ''xyz'' = []"
  by code_simp

lemmas player_eval = init_def init_body_def cmd_defs ensureFxChain_def
  applyFxSettingsFromStorage_def getOrCreateAudioContext_def sample_env_def sample_no_audio_def
  initial_player_def

lemma sample_loaded_eq:
  "init sample_env False (Inr ''CDEF'') ''tune.abc'' initial_player = (True, sample_loaded)"
  "notes sample_loaded =
   [\<lparr>midi = 60, seconds = Fin (3 / 10)\<rparr>, \<lparr>midi = 62, seconds = Fin (3 / 10)\<rparr>,
    \<lparr>midi = 64, seconds = Fin (3 / 10)\<rparr>, \<lparr>midi = 65, seconds = Fin (3 / 10)\<rparr>]"
  "audioContext sample_loaded = Some Suspended"
  "audioLog sample_loaded = []"
  by (simp_all add: sample_loaded_def player_eval parse_CDEF)

theorem playNextNote_cycles_witness:
  "init sample_env False (Inr ''CDEF'') ''tune.abc'' initial_player = (True, sample_loaded) \<and>
   map midi (notes sample_loaded) = [60, 62, 64, 65] \<and>
   cursor (snd (play_calls (replicate 5 sample_env) sample_loaded)) = 1 \<and>
   List.map_filter sounded (audioLog (snd (play_calls (replicate 5 sample_env) sample_loaded))) =
     [60, 62, 64, 65, 60] \<and>
   map fst (List.map_filter logged (audioLog (snd (play_calls (replicate 5 sample_env) sample_loaded)))) =
     [0, 1, 2, 3, 0]"
proof -
  have up: "[0 ..< 5] = [0, 1, 2, 3, 4::nat]" by (simp add: upt_rec)
  from playNextNote_cycles [OF sample_loaded_eq(1), of "replicate 5 sample_env"]
  show ?thesis
    by (simp add: sample_loaded_eq up List.map_filter_simps)
qed

lemma ensureFxChain_throws_iff:
  "(fst (ensureFxChain ctx s) = None) = (ctx \<noteq> None \<or> fx_complete s)"
proof (cases ctx)
  case None
  then show ?thesis
    using ensureFxChain_None [of s] ensureFxChain_complete [of s None]
    by (cases "fx_complete s") auto
next
  case (Some c)
  then show ?thesis by (simp add: ensureFxChain_Some)
qed

lemma init_loads:
  assumes "getOrCreateAudioContext env \<noteq> None \<or> fx_complete s"
  shows "notes (snd (init env pl (Inr text) f s)) = parseAbcSimple text"
    and "currentSong (snd (init env pl (Inr text) f s)) = Some f"
proof -
  from assms have ok: "fst (ensureFxChain (getOrCreateAudioContext env)
      (s\<lparr>audioContext := getOrCreateAudioContext env\<rparr>)) = None"
    by (simp add: ensureFxChain_throws_iff)
  show "notes (snd (init env pl (Inr text) f s)) = parseAbcSimple text"
    and "currentSong (snd (init env pl (Inr text) f s)) = Some f"
    by (simp_all add: init_def init_body_ok [OF ok] Let_def parseAbcToNotes_eq)
qed

lemma init_no_context:
  assumes "getOrCreateAudioContext env = None" and "\<not> fx_complete s"
  shows "notes (snd (init env pl abc f s)) = []"
proof -
  from assms have "fst (ensureFxChain (getOrCreateAudioContext env)
      (s\<lparr>audioContext := getOrCreateAudioContext env\<rparr>)) \<noteq> None"
    by (simp add: ensureFxChain_throws_iff)
  from init_body_throw [OF this, of pl abc f] show ?thesis
    by (cases "init_body env pl abc f s") (auto simp: init_def)
qed

text \<open>
  C2.  \<open>init\<close> always leaves the cursor at 0 and replaces the note list.  When the tune
  text arrives and the effect chain can be set up (a context is available, or the chain
  exists already), the new list is exactly the parsed notes of the new tune, whatever was
  loaded before, and the song name is recorded; when the load fails, or no context is
  available for a chain that is still missing, the new list is empty.  \<open>init\<close> returns
  whether the new list has a note.  With an empty note list every \<open>playNextNote\<close> call
  is a no-op: it does not throw and leaves the whole state, cursor and audio log
  included, as it was.
\<close>

theorem init_resets_and_empty_is_silent:
  "cursor (snd (init env pl abc f s)) = 0 \<and>
   (\<forall>text. abc = Inr text \<and> (getOrCreateAudioContext env \<noteq> None \<or> fx_complete s) \<longrightarrow>
      notes (snd (init env pl abc f s)) = parseAbcSimple text \<and>
      currentSong (snd (init env pl abc f s)) = Some f) \<and>
   (\<forall>text. abc = Inr text \<and> getOrCreateAudioContext env = None \<and> \<not> fx_complete s \<longrightarrow>
      notes (snd (init env pl abc f s)) = []) \<and>
   (\<forall>e. abc = Inl e \<longrightarrow> notes (snd (init env pl abc f s)) = []) \<and>
   fst (init env pl abc f s) = (notes (snd (init env pl abc f s)) \<noteq> []) \<and>
   (notes s1 = [] \<longrightarrow>
      playNextNote env1 s1 = (None, s1) \<and>
      play_calls envs s1 = (replicate (length envs) None, s1))"
proof -
  have a: "cursor (snd (init env pl abc f s)) = 0" by (rule init_cursor)
  have b: "\<forall>text. abc = Inr text \<and> (getOrCreateAudioContext env \<noteq> None \<or> fx_complete s) \<longrightarrow>
      notes (snd (init env pl abc f s)) = parseAbcSimple text \<and>
      currentSong (snd (init env pl abc f s)) = Some f"
    using init_loads [of env s pl _ f] by auto
  have c: "\<forall>text. abc = Inr text \<and> getOrCreateAudioContext env = None \<and> \<not> fx_complete s \<longrightarrow>
      notes (snd (init env pl abc f s)) = []"
    using init_no_context [of env s pl abc f] by auto
  have d: "\<forall>e. abc = Inl e \<longrightarrow> notes (snd (init env pl abc f s)) = []"
    using init_failed_load [of env pl _ f s] by auto
  have e: "fst (init env pl abc f s) = (notes (snd (init env pl abc f s)) \<noteq> [])"
    by (rule init_result)
  have g: "notes s1 = [] \<longrightarrow>
      playNextNote env1 s1 = (None, s1) \<and>
      play_calls envs s1 = (replicate (length envs) None, s1)"
    by (simp add: playNextNote_empty play_calls_empty)
  from a b c d e g show ?thesis by (intro conjI)
qed

theorem init_resets_and_empty_is_silent_witness:
  "map midi (notes sample_loaded) = [60, 62, 64, 65] \<and>
   getOrCreateAudioContext sample_env = Some Suspended \<and>
   map midi (notes (snd (init sample_env True (Inr ''CD'') ''other.abc'' sample_loaded))) = [60, 62] \<and>
   currentSong (snd (init sample_env True (Inr ''CD'') ''other.abc'' sample_loaded)) = Some ''other.abc'' \<and>
   cursor (snd (init sample_env True (Inr ''CD'') ''other.abc'' sample_loaded)) = 0 \<and>
   fst (init sample_env True (Inr ''CD'') ''other.abc'' sample_loaded) \<and>
   parseAbcSimple ''xyz'' = [] \<and>
   notes (snd (init sample_env True (Inr ''xyz'') ''silent.abc'' sample_loaded)) = [] \<and>
   cursor (snd (init sample_env True (Inr ''xyz'') ''silent.abc'' sample_loaded)) = 0 \<and>
   notes (snd (init sample_env True (Inl LoadFailed) ''gone.abc'' sample_loaded)) = [] \<and>
   notes (snd (init sample_no_audio True (Inr ''CD'') ''other.abc'' initial_player)) = [] \<and>
   play_calls [sample_env, sample_no_audio]
       (snd (init sample_env True (Inr ''xyz'') ''silent.abc'' sample_loaded)) =
     ([None, None], snd (init sample_env True (Inr ''xyz'') ''silent.abc'' sample_loaded))"
proof -
  let ?s = "snd (init sample_env True (Inr ''xyz'') ''silent.abc'' sample_loaded)"
  have g: "getOrCreateAudioContext sample_env = Some Suspended"
    by (simp add: getOrCreateAudioContext_def sample_env_def)
  have g0: "getOrCreateAudioContext sample_no_audio = None"
    by (simp add: getOrCreateAudioContext_def sample_no_audio_def)
  have nfx: "\<not> fx_complete initial_player" by (simp add: fx_complete_def initial_player_def)
  have cd: "parseAbcSimple ''CD'' =
     [\<lparr>midi = 60, seconds = Fin (3 / 10)\<rparr>, \<lparr>midi = 62, seconds = Fin (3 / 10)\<rparr>]"
    using parse_CD by (simp add: parseAbcToNotes_eq)
  note load = init_resets_and_empty_is_silent
     [of sample_env True "Inr ''CD''" "''other.abc''" sample_loaded]
  from load g cd
  have l1: "map midi (notes (snd (init sample_env True (Inr ''CD'') ''other.abc'' sample_loaded))) = [60, 62]"
    and l2: "currentSong (snd (init sample_env True (Inr ''CD'') ''other.abc'' sample_loaded)) = Some ''other.abc''"
    and l3: "cursor (snd (init sample_env True (Inr ''CD'') ''other.abc'' sample_loaded)) = 0"
    and l4: "fst (init sample_env True (Inr ''CD'') ''other.abc'' sample_loaded)"
    by simp_all
  note inst = init_resets_and_empty_is_silent
     [of sample_env True "Inr ''xyz''" "''silent.abc''" sample_loaded ?s sample_env
         "[sample_env, sample_no_audio]"]
  from inst g parse_xyz have n: "notes ?s = []" and c: "cursor ?s = 0"
    by (simp_all del: play_calls.simps)
  from inst n have p: "play_calls [sample_env, sample_no_audio] ?s = ([None, None], ?s)"
    by (simp del: play_calls.simps)
  from init_resets_and_empty_is_silent
     [of sample_env True "Inl LoadFailed" "''gone.abc''" sample_loaded]
  have l: "notes (snd (init sample_env True (Inl LoadFailed) ''gone.abc'' sample_loaded)) = []"
    by simp
  from init_resets_and_empty_is_silent
     [of sample_no_audio True "Inr ''CD''" "''other.abc''" initial_player] g0 nfx
  have na: "notes (snd (init sample_no_audio True (Inr ''CD'') ''other.abc'' initial_player)) = []"
    by simp
  from l1 l2 l3 l4 n c p l na g parse_xyz show ?thesis
    by (simp add: sample_loaded_eq del: play_calls.simps)
qed





text \<open>
  The restriction to reachable states is needed: \<open>playNextNote\<close> calls
  \<open>ensureFxChain(ctx)\<close> without a null test, so in a state with notes but without the
  effect chain (which no run of the module produces) a missing context makes it throw.
\<close>

lemma playNextNote_throws_without_fx_chain:
  "fst (playNextNote sample_no_audio
         (initial_player\<lparr>notes := [\<lparr>midi = 60, seconds = Fin (3 / 10)\<rparr>]\<rparr>)) = Some TypeError"
  by (simp add: playNextNote_def Let_def cmd_defs resume_if_suspended_def ensureFxChain_def
      getOrCreateAudioContext_def sample_no_audio_def initial_player_def)

end
